theory Spec2Isabelle
  imports Complex_Main
begin

section \<open>Numbers\<close>

text \<open>
  The engine computes on JavaScript numbers and stores heights and colours in
  \<open>Float32Array\<close>s. The model computes on exact reals: rounding to binary floating point is
  not modelled, and every bound proved below is a bound of the exact arithmetic. The
  non-finite values that the source can produce by a division by zero are kept as values
  of their own, so that no division of the model hides one.
\<close>

datatype jsnum = Num real | PInf | NInf | NaN

text \<open>\<open>a / b\<close> on finite operands.\<close>

definition js_div :: "real \<Rightarrow> real \<Rightarrow> jsnum" where
  "js_div a b =
     (if b \<noteq> 0 then Num (a / b)
      else if a > 0 then PInf else if a < 0 then NInf else NaN)"

text \<open>\<open>a - q\<close> for a finite \<open>a\<close>.\<close>

fun js_rsub :: "real \<Rightarrow> jsnum \<Rightarrow> jsnum" where
  "js_rsub a (Num q) = Num (a - q)"
| "js_rsub a PInf = NInf"
| "js_rsub a NInf = PInf"
| "js_rsub a NaN = NaN"

text \<open>\<open>p < c\<close>, \<open>p >= c\<close> and \<open>a > q\<close>; every comparison with \<open>NaN\<close> is false.\<close>

fun js_lt :: "jsnum \<Rightarrow> real \<Rightarrow> bool" where
  "js_lt (Num p) c = (p < c)"
| "js_lt NInf c = True"
| "js_lt PInf c = False"
| "js_lt NaN c = False"

fun js_ge :: "jsnum \<Rightarrow> real \<Rightarrow> bool" where
  "js_ge (Num p) c = (p \<ge> c)"
| "js_ge PInf c = True"
| "js_ge NInf c = False"
| "js_ge NaN c = False"

fun js_gt :: "jsnum \<Rightarrow> real \<Rightarrow> bool" where
  "js_gt (Num p) c = (p > c)"
| "js_gt PInf c = True"
| "js_gt NInf c = False"
| "js_gt NaN c = False"

fun real_gt_js :: "real \<Rightarrow> jsnum \<Rightarrow> bool" where
  "real_gt_js a (Num q) = (a > q)"
| "real_gt_js a NInf = True"
| "real_gt_js a PInf = False"
| "real_gt_js a NaN = False"

text \<open>\<open>Math.round\<close> rounds to the nearest integer, a tie towards plus infinity.\<close>

definition js_round :: "real \<Rightarrow> int" where
  "js_round v = \<lfloor>v + 1 / 2\<rfloor>"

section \<open>Slider values\<close>

text \<open>
  The object \<open>cached\<close> mirrors the sliders. Their ranges are attributes of the page's
  markup, which is not part of the script, so every value is a parameter here.
\<close>

record settings =
  depth :: real
  rim :: real
  blend :: real
  spread :: int
  fwdD :: real
  sideD :: real

section \<open>The gaussian deposit kernel\<close>

definition MAX_KERNEL :: nat where
  "MAX_KERNEL = 81"

text \<open>
  One entry is an offset and its weight. \<open>kernelEntries r\<close> lists what the double loop of
  \<open>rebuildGaussKernel\<close> produces, in its order, before normalization; the length of the
  list is \<open>count\<close> and the sum of its weights is \<open>total\<close>.
\<close>

type_synonym kentry = "int \<times> int \<times> real"

definition kernelWeight :: "int \<Rightarrow> int \<Rightarrow> int \<Rightarrow> real" where
  "kernelWeight r sx sy =
     (let sigma = real_of_int r * 0.75;
          invTwoSigma2 = 1 / (2 * sigma * sigma);
          d2 = sx * sx + sy * sy
      in exp (- real_of_int d2 * invTwoSigma2))"

definition kernelEntries :: "int \<Rightarrow> kentry list" where
  "kernelEntries r =
     concat (map (\<lambda>sy.
       concat (map (\<lambda>sx.
         if sx * sx + sy * sy > r * r then [] else [(sx, sy, kernelWeight r sx sy)])
       [- r ..r]))
     [- r ..r])"

definition kernelTotal :: "int \<Rightarrow> real" where
  "kernelTotal r = sum_list (map (\<lambda>(sx, sy, w). w) (kernelEntries r))"

text \<open>
  The kernel that \<open>rebuildGaussKernel\<close> leaves in \<open>gaussDx\<close>, \<open>gaussDy\<close> and \<open>gaussW\<close>.
  The three arrays have \<open>MAX_KERNEL\<close> cells: a write past the end of a typed array is
  dropped, and a read there gives \<open>undefined\<close>, which makes the carve loop skip the entry,
  so the kernel in effect is the first \<open>MAX_KERNEL\<close> entries.
  For \<open>r = 0\<close> the source computes \<open>1 / 0 = Infinity\<close> and \<open>-0 * Infinity = NaN\<close>: the only
  weight is \<open>NaN\<close>, which is no kernel of reals, and the result is \<open>None\<close>.
\<close>

definition rebuildGaussKernel :: "int \<Rightarrow> kentry list option" where
  "rebuildGaussKernel r =
     (if r = 0 then None
      else
        let invTotal = 1 / kernelTotal r
        in Some (take MAX_KERNEL
                   (map (\<lambda>(sx, sy, w). (sx, sy, w * invTotal)) (kernelEntries r))))"

section \<open>The tine profile\<close>

text \<open>
  One entry of the table that \<open>rebuildTineProfile\<close> builds, at the offset \<open>(dx, dy)\<close>.
  With \<open>r = 0\<close> the quotient \<open>sqrt 0 / 0\<close> is \<open>NaN\<close>, every comparison with it is false
  and the last branch stores \<open>NaN\<close>.
\<close>

definition profileEntry :: "int \<Rightarrow> real \<Rightarrow> real \<Rightarrow> int \<Rightarrow> int \<Rightarrow> jsnum" where
  "profileEntry r curDepth curRim dx dy =
     (let dist2 = dx * dx + dy * dy; rSq = r * r in
      if dist2 > rSq then Num (- 1)
      else
        case js_div (sqrt (real_of_int dist2)) (real_of_int r) of
          Num t \<Rightarrow>
            if t < 0.6 then
              (let u = t / 0.6 in Num (1.0 - curDepth * (1 - u * u * u)))
            else if t < 0.85 then
              (let u = (t - 0.6) / 0.25 in Num (1.0 + u * curRim))
            else
              (let u = (t - 0.85) / 0.15 in Num ((1.0 + curRim) - u * curRim))
        | _ \<Rightarrow> NaN)"

text \<open>
  The offsets that the two loops of \<open>rebuildTineProfile\<close> visit, in their order, and the
  table that they leave: a fresh \<open>Float32Array\<close> of \<open>side * side\<close> cells is zero-filled,
  and the loops write one cell for each offset. With \<open>r < 0\<close> the loops do not run and
  the table stays zero-filled (its length is \<open>(2r + 1)\<^sup>2\<close>, which is positive).
\<close>

definition profileOffsets :: "int \<Rightarrow> (int \<times> int) list" where
  "profileOffsets r = concat (map (\<lambda>dy. map (\<lambda>dx. (dx, dy)) [- r ..r]) [- r ..r])"

definition tineProfileTable :: "int \<Rightarrow> real \<Rightarrow> real \<Rightarrow> jsnum list" where
  "tineProfileTable r curDepth curRim =
     (let side = 2 * r + 1 in
      fold (\<lambda>(dx, dy) t. t[nat ((dy + r) * side + (dx + r)) := profileEntry r curDepth curRim dx dy])
        (profileOffsets r) (replicate (nat (side * side)) (Num 0)))"

section \<open>The garden\<close>

text \<open>
  A snapshot is what \<open>getCurrentState\<close> returns: fresh copies of the height array and of
  the three colour arrays. The noise array is not copied.
\<close>

record snapshot =
  snapH :: "real list"
  snapR :: "jsnum list"
  snapG :: "jsnum list"
  snapB :: "jsnum list"

text \<open>
  The global variables of the script that the carving engine, the history, the dirty
  rectangle and the digging controller read and write. \<open>gauss\<close> is the kernel held by
  \<open>gaussDx\<close>, \<open>gaussDy\<close> and \<open>gaussW\<close> up to \<open>gaussLen\<close>. A colour cell holds a finite
  number or \<open>NaN\<close>. \<open>quotePixels\<close> and \<open>tineProfile\<close> are \<open>null\<close> (\<open>None\<close>) until they are
  built. \<open>arrayLimit\<close> is not a variable of the script: it is the greatest length for which
  the engine creates a typed array. The language refuses a length above \<open>2\<^sup>53 - 1\<close>; how
  much less an engine allows is its own matter, so the limit is a parameter of the model.
\<close>

record garden =
  W :: int
  H :: int
  totalPixels :: nat
  sandHeight :: "real list"
  sandR :: "jsnum list"
  sandG :: "jsnum list"
  sandB :: "jsnum list"
  noiseMap :: "real list"
  diggingMode :: bool
  savedGardenState :: "snapshot option"
  undoStack :: "snapshot list"
  redoStack :: "snapshot list"
  dirtyMinX :: int
  dirtyMinY :: int
  dirtyMaxX :: int
  dirtyMaxY :: int
  dirtyEmpty :: bool
  cached :: settings
  gauss :: "kentry list"
  quotePixels :: "nat list option"
  tineProfileR :: int
  tineProfileDepth :: real
  tineProfileRim :: real
  tineProfile :: "jsnum list option"
  tineProfileStride :: int
  arrayLimit :: nat

text \<open>
  A function of the script returns or throws. In both cases it leaves a state behind: an
  exception that leaves an event handler ends the handler, and the page goes on from
  the state reached. \<open>Thrown e s\<close> is the exception \<open>e\<close> thrown in the state \<open>s\<close>.
\<close>

datatype error = RangeError | TypeError

datatype outcome = Done garden | Thrown error garden

fun stateOf :: "outcome \<Rightarrow> garden" where
  "stateOf (Done s) = s"
| "stateOf (Thrown e s) = s"

fun returned :: "outcome \<Rightarrow> bool" where
  "returned (Done s) = True"
| "returned (Thrown e s) = False"

text \<open>The rest of a function body runs only if the call before it returned.\<close>

fun andThen :: "outcome \<Rightarrow> (garden \<Rightarrow> outcome) \<Rightarrow> outcome" where
  "andThen (Done s) f = f s"
| "andThen (Thrown e s) f = Thrown e s"

definition MAX_UNDO :: nat where
  "MAX_UNDO = 10"

definition MAX_R :: nat where
  "MAX_R = 20"

definition MAX_DISP :: nat where
  "MAX_DISP = (2 * MAX_R + 1) * (2 * MAX_R + 1)"

subsection \<open>Dirty region\<close>

definition markDirty :: "real \<Rightarrow> real \<Rightarrow> real \<Rightarrow> garden \<Rightarrow> garden" where
  "markDirty x y radius s =
     (let r = \<lceil>radius\<rceil>;
          x0 = max 0 (\<lfloor>x\<rfloor> - r);
          y0 = max 0 (\<lfloor>y\<rfloor> - r);
          x1 = min (W s - 1) (\<lceil>x\<rceil> + r);
          y1 = min (H s - 1) (\<lceil>y\<rceil> + r)
      in if dirtyEmpty s then
           s\<lparr>dirtyMinX := x0, dirtyMinY := y0, dirtyMaxX := x1, dirtyMaxY := y1,
             dirtyEmpty := False\<rparr>
         else
           s\<lparr>dirtyMinX := (if x0 < dirtyMinX s then x0 else dirtyMinX s),
             dirtyMinY := (if y0 < dirtyMinY s then y0 else dirtyMinY s),
             dirtyMaxX := (if x1 > dirtyMaxX s then x1 else dirtyMaxX s),
             dirtyMaxY := (if y1 > dirtyMaxY s then y1 else dirtyMaxY s)\<rparr>)"

definition markFullDirty :: "garden \<Rightarrow> garden" where
  "markFullDirty s =
     s\<lparr>dirtyMinX := 0, dirtyMinY := 0, dirtyMaxX := W s - 1, dirtyMaxY := H s - 1,
       dirtyEmpty := False\<rparr>"

definition resetDirty :: "garden \<Rightarrow> garden" where
  "resetDirty s = s\<lparr>dirtyEmpty := True\<rparr>"

text \<open>The cell \<open>(px, py)\<close> lies in the tracked rectangle.\<close>

definition inDirty :: "garden \<Rightarrow> int \<Rightarrow> int \<Rightarrow> bool" where
  "inDirty s px py =
     (\<not> dirtyEmpty s \<and> dirtyMinX s \<le> px \<and> px \<le> dirtyMaxX s
        \<and> dirtyMinY s \<le> py \<and> py \<le> dirtyMaxY s)"

subsection \<open>History\<close>

definition getCurrentState :: "garden \<Rightarrow> snapshot" where
  "getCurrentState s =
     \<lparr>snapH = sandHeight s, snapR = sandR s, snapG = sandG s, snapB = sandB s\<rparr>"

text \<open>
  \<open>dst.set(src)\<close> on typed arrays copies \<open>src\<close> over the front of \<open>dst\<close> and throws a
  RangeError (here \<open>None\<close>) when \<open>src\<close> is the longer one.
\<close>

definition typedSet :: "'a list \<Rightarrow> 'a list \<Rightarrow> 'a list option" where
  "typedSet dst src =
     (if length src \<le> length dst then Some (src @ drop (length src) dst) else None)"

text \<open>
  The four \<open>set\<close> calls that \<open>undo\<close>, \<open>redo\<close> and \<open>exitDiggingMode\<close> make in the same
  order. A call that throws leaves the arrays set before it as they were set.
\<close>

definition setHeights :: "snapshot \<Rightarrow> garden \<Rightarrow> outcome" where
  "setHeights st s =
     (case typedSet (sandHeight s) (snapH st) of
        None \<Rightarrow> Thrown RangeError s
      | Some a \<Rightarrow> Done (s\<lparr>sandHeight := a\<rparr>))"

definition setR :: "snapshot \<Rightarrow> garden \<Rightarrow> outcome" where
  "setR st s =
     (case typedSet (sandR s) (snapR st) of
        None \<Rightarrow> Thrown RangeError s
      | Some a \<Rightarrow> Done (s\<lparr>sandR := a\<rparr>))"

definition setG :: "snapshot \<Rightarrow> garden \<Rightarrow> outcome" where
  "setG st s =
     (case typedSet (sandG s) (snapG st) of
        None \<Rightarrow> Thrown RangeError s
      | Some a \<Rightarrow> Done (s\<lparr>sandG := a\<rparr>))"

definition setB :: "snapshot \<Rightarrow> garden \<Rightarrow> outcome" where
  "setB st s =
     (case typedSet (sandB s) (snapB st) of
        None \<Rightarrow> Thrown RangeError s
      | Some a \<Rightarrow> Done (s\<lparr>sandB := a\<rparr>))"

definition restoreState :: "snapshot \<Rightarrow> garden \<Rightarrow> outcome" where
  "restoreState st s =
     andThen (andThen (andThen (setHeights st s) (setR st)) (setG st)) (setB st)"

definition pushUndo :: "garden \<Rightarrow> garden" where
  "pushUndo s =
     (let us = (if length (undoStack s) \<ge> MAX_UNDO then tl (undoStack s) else undoStack s)
      in s\<lparr>undoStack := us @ [getCurrentState s]\<rparr>)"

definition saveState :: "garden \<Rightarrow> garden" where
  "saveState s = pushUndo (s\<lparr>redoStack := []\<rparr>)"

definition undo :: "garden \<Rightarrow> outcome" where
  "undo s =
     (if undoStack s = [] then Done s
      else
        let s1 = s\<lparr>redoStack := redoStack s @ [getCurrentState s]\<rparr>;
            st = last (undoStack s1);
            s2 = s1\<lparr>undoStack := butlast (undoStack s1)\<rparr>
        in andThen (restoreState st s2) (\<lambda>t. Done (markFullDirty t)))"

definition redo :: "garden \<Rightarrow> outcome" where
  "redo s =
     (if redoStack s = [] then Done s
      else
        let s1 = pushUndo s;
            st = last (redoStack s1);
            s2 = s1\<lparr>redoStack := butlast (redoStack s1)\<rparr>
        in andThen (restoreState st s2) (\<lambda>t. Done (markFullDirty t)))"

subsection \<open>Reset\<close>

text \<open>
  \<open>Math.random\<close> is a parameter: \<open>rnd k\<close> is the \<open>k\<close>-th number drawn, each in \<open>[0, 1)\<close>.
\<close>

definition SAND_COLORS0 :: "jsnum \<times> jsnum \<times> jsnum" where
  "SAND_COLORS0 = (Num 210, Num 190, Num 160)"

definition initSand :: "garden \<Rightarrow> garden" where
  "initSand s =
     fold (\<lambda>i s. s\<lparr>sandHeight := (sandHeight s)[i := 1.0],
                   sandR := (sandR s)[i := fst SAND_COLORS0],
                   sandG := (sandG s)[i := fst (snd SAND_COLORS0)],
                   sandB := (sandB s)[i := snd (snd SAND_COLORS0)]\<rparr>)
       [0 ..< totalPixels s] s"

fun noiseLoop :: "(nat \<Rightarrow> real) \<Rightarrow> nat \<Rightarrow> nat list \<Rightarrow> real list \<Rightarrow> real list" where
  "noiseLoop rnd k [] a = a"
| "noiseLoop rnd k (i # is) a =
     (let fine = (rnd k - 0.5) * 10 in
      if rnd (k + 1) < 0.03
      then noiseLoop rnd (k + 3) is (a[i := fine + (rnd (k + 2) - 0.5) * 16])
      else noiseLoop rnd (k + 2) is (a[i := fine + 0]))"

definition generateNoiseMap :: "(nat \<Rightarrow> real) \<Rightarrow> nat \<Rightarrow> garden \<Rightarrow> garden" where
  "generateNoiseMap rnd k s =
     s\<lparr>noiseMap := noiseLoop rnd k [0 ..< totalPixels s] (noiseMap s)\<rparr>"

definition clearSand :: "(nat \<Rightarrow> real) \<Rightarrow> garden \<Rightarrow> garden" where
  "clearSand rnd s =
     (if diggingMode s then s
      else
        let s1 = initSand (saveState s);
            s2 = fold (\<lambda>i s. s\<lparr>sandHeight := (sandHeight s)
                        [i := max 0.1 (min 1.5 (sandHeight s ! i + (rnd i - 0.5) * 0.3))]\<rparr>)
                   [0 ..< totalPixels s1] s1
        in markFullDirty (generateNoiseMap rnd (totalPixels s2) s2))"

subsection \<open>Digging controller\<close>

text \<open>
  \<open>buildQuotePixels\<close> draws the quote of the day on a canvas of its own and reads the
  alpha channel back. The font size starts at \<open>floor (min W H * 0.12)\<close>, and the loop that
  wraps the text runs while the size is at least \<open>minFontSize = 14\<close>. When the size starts
  below 14 the loop body never runs, the variable \<open>lines\<close> stays \<open>undefined\<close> and reading
  \<open>lines.length\<close> throws a TypeError, before anything is written. Otherwise \<open>lines\<close> holds
  the wrapped text and the function goes through. What the canvas draws is not part of the
  script: \<open>alpha i\<close> is the alpha byte that it returns for the pixel \<open>i\<close>.
\<close>

definition buildQuotePixels :: "(nat \<Rightarrow> nat) \<Rightarrow> garden \<Rightarrow> outcome" where
  "buildQuotePixels alpha s =
     (let fontSize = \<lfloor>real_of_int (min (W s) (H s)) * 0.12\<rfloor>;
          minFontSize = 14
      in if fontSize < minFontSize then Thrown TypeError s
         else Done (s\<lparr>quotePixels :=
                Some (map (\<lambda>i. if alpha i > 128 then 1 else 0) [0 ..< totalPixels s])\<rparr>))"

definition enterDiggingMode :: "(nat \<Rightarrow> real) \<Rightarrow> (nat \<Rightarrow> nat) \<Rightarrow> garden \<Rightarrow> outcome" where
  "enterDiggingMode rnd alpha s =
     (let s1 = s\<lparr>savedGardenState := Some (getCurrentState s), undoStack := [],
                 redoStack := []\<rparr>
      in andThen (buildQuotePixels alpha s1) (\<lambda>s2.
           let s3 = fold (\<lambda>i s. s\<lparr>sandHeight := (sandHeight s)[i := 2.0],
                                  sandR := (sandR s)[i := fst SAND_COLORS0],
                                  sandG := (sandG s)[i := fst (snd SAND_COLORS0)],
                                  sandB := (sandB s)[i := snd (snd SAND_COLORS0)]\<rparr>)
                      [0 ..< totalPixels s2] s2;
               s4 = generateNoiseMap rnd 0 s3
           in Done (markFullDirty (s4\<lparr>diggingMode := True\<rparr>))))"

text \<open>
  With no snapshot held, reading \<open>savedGardenState.h\<close> throws a TypeError.
\<close>

definition exitDiggingMode :: "garden \<Rightarrow> outcome" where
  "exitDiggingMode s =
     (case savedGardenState s of
        None \<Rightarrow> Thrown TypeError s
      | Some st \<Rightarrow>
          andThen (restoreState st s)
            (\<lambda>s1. Done (markFullDirty
                     (s1\<lparr>savedGardenState := None, quotePixels := None, diggingMode := False,
                         undoStack := [], redoStack := []\<rparr>))))"

section \<open>Carving\<close>

subsection \<open>Depth colours of the digging mode\<close>

definition getDiggingColor :: "jsnum \<Rightarrow> jsnum \<times> jsnum \<times> jsnum" where
  "getDiggingColor h =
     (let dug = (case h of Num v \<Rightarrow> Num (2.0 - v) | PInf \<Rightarrow> NInf | NInf \<Rightarrow> PInf
                 | NaN \<Rightarrow> NaN);
          normDug = (if js_gt dug 1.89 then Num 1
                     else if js_lt dug 0 then Num 0
                     else (case dug of Num d \<Rightarrow> Num (d / 1.89) | q \<Rightarrow> q))
      in case normDug of
           Num n \<Rightarrow>
             if n < 0.25 then (Num 210, Num 190, Num 160)
             else if n < 0.50 then
               (let t = (n - 0.25) / 0.25
                in (Num (210 + t * (190 - 210)), Num (190 + t * (100 - 190)),
                    Num (160 + t * (50 - 160))))
             else if n < 0.75 then
               (let t = (n - 0.50) / 0.25
                in (Num (190 + t * (80 - 190)), Num (100 + t * (55 - 100)),
                    Num (50 + t * (40 - 50))))
             else
               (let t = (n - 0.75) / 0.25
                in (Num (80 + t * (60 - 80)), Num (55 + t * (120 - 55)),
                    Num (40 + t * (60 - 40))))
         | _ \<Rightarrow> (NaN, NaN, NaN))"

subsection \<open>The profile cache\<close>

text \<open>
  \<open>rebuildTineProfile\<close> returns at once when the key \<open>(r, depth, rim)\<close> is the one it
  stored last. Otherwise it stores the key and the stride first and allocates the table
  after that: when the allocation throws a RangeError, the new key and the new stride stay
  with the old table.
\<close>

definition rebuildTineProfile :: "int \<Rightarrow> garden \<Rightarrow> outcome" where
  "rebuildTineProfile r s =
     (let curDepth = depth (cached s); curRim = rim (cached s) in
      if r = tineProfileR s \<and> curDepth = tineProfileDepth s \<and> curRim = tineProfileRim s
      then Done s
      else
        let side = 2 * r + 1;
            s1 = s\<lparr>tineProfileR := r, tineProfileDepth := curDepth, tineProfileRim := curRim,
                   tineProfileStride := side\<rparr>
        in if nat (side * side) > arrayLimit s then Thrown RangeError s1
           else Done (s1\<lparr>tineProfile := Some (tineProfileTable r curDepth curRim)\<rparr>))"

text \<open>
  Reading the table at an index. Past the end of a typed array the read gives
  \<open>undefined\<close>, which every use in \<open>carveTine\<close> turns into a number, and that number is
  \<open>NaN\<close>.
\<close>

definition profileAt :: "jsnum list \<Rightarrow> int \<Rightarrow> jsnum" where
  "profileAt tab i = (if 0 \<le> i \<and> nat i < length tab then tab ! nat i else NaN)"

subsection \<open>Pass 1: removal\<close>

text \<open>
  A displacement record: the cell, the height removed, and the colour of the cell
  (\<open>dispIdx\<close>, \<open>dispAmount\<close>, \<open>dispSrcR\<close>, \<open>dispSrcG\<close>, \<open>dispSrcB\<close>).
\<close>

type_synonym disp = "nat \<times> real \<times> jsnum \<times> jsnum \<times> jsnum"

text \<open>
  The tail of the loop body: \<open>if (currentH > newH) { ... }\<close>. The new height is finite
  or fails the comparison: the digging branch has replaced everything below \<open>0.1\<close>, and
  the blend of the other branch is finite or \<open>NaN\<close>.
\<close>

definition recordDisp :: "nat \<Rightarrow> real \<Rightarrow> jsnum \<Rightarrow> garden \<times> disp list \<Rightarrow> garden \<times> disp list" where
  "recordDisp idx currentH newH sd =
     (case newH of
        Num n \<Rightarrow>
          if currentH > n then
            (let s = fst sd; displaced = currentH - n
             in (s\<lparr>sandHeight := (sandHeight s)[idx := n]\<rparr>,
                 snd sd @ [(idx, displaced, sandR s ! idx, sandG s ! idx, sandB s ! idx)]))
          else sd
      | _ \<Rightarrow> sd)"

text \<open>The new height of the digging branch, before the comparison with the old one.\<close>

definition digNewH :: "real \<Rightarrow> real \<Rightarrow> jsnum \<Rightarrow> jsnum" where
  "digNewH blendTarget currentH targetHeight =
     (let depthFactor = (2.0 - currentH) / 1.9;
          hardness = 1.0 + depthFactor * 3.0;
          removeAmount = (case targetHeight of
                            Num t \<Rightarrow> js_div ((1.0 - t) * blendTarget) hardness
                          | _ \<Rightarrow> NaN);
          newH = js_rsub currentH removeAmount
      in if js_lt newH 0.1 then Num 0.1 else newH)"

text \<open>The body of the inner loop, for a cell of the grid and its profile entry.\<close>

definition pass1Cell :: "real \<Rightarrow> jsnum \<Rightarrow> nat \<Rightarrow> garden \<times> disp list \<Rightarrow> garden \<times> disp list" where
  "pass1Cell blendTarget targetHeight idx sd =
     (if js_lt targetHeight 0 then sd
      else
        let s = fst sd; currentH = sandHeight s ! idx in
        if diggingMode s then
          if js_ge targetHeight 1.0 then sd
          else
            let newH = digNewH blendTarget currentH targetHeight;
                col = getDiggingColor newH;
                s1 = s\<lparr>sandR := (sandR s)[idx := fst col],
                       sandG := (sandG s)[idx := fst (snd col)],
                       sandB := (sandB s)[idx := snd (snd col)]\<rparr>
            in recordDisp idx currentH newH (s1, snd sd)
        else
          let blendInv = 1 - blendTarget;
              newH = (case targetHeight of
                        Num t \<Rightarrow> Num (currentH * blendInv + t * blendTarget)
                      | _ \<Rightarrow> NaN)
          in recordDisp idx currentH newH sd)"

text \<open>
  The offsets \<open>(dx, dy)\<close> that the two loops reach past their \<open>continue\<close> statements for
  cells off the grid, in the order of the loops.
\<close>

definition carveCells :: "int \<Rightarrow> int \<Rightarrow> int \<Rightarrow> int \<Rightarrow> int \<Rightarrow> (int \<times> int) list" where
  "carveCells w h r ix iy =
     concat (map (\<lambda>dy.
       if iy + dy < 0 \<or> iy + dy \<ge> h then []
       else concat (map (\<lambda>dx. if ix + dx < 0 \<or> ix + dx \<ge> w then [] else [(dx, dy)])
              [- r ..r]))
     [- r ..r])"

text \<open>Pass 1 with the table \<open>tab\<close> in \<open>tineProfile\<close>.\<close>

definition carvePass1 :: "jsnum list \<Rightarrow> int \<Rightarrow> int \<Rightarrow> int \<Rightarrow> garden \<Rightarrow> garden \<times> disp list" where
  "carvePass1 tab r ix iy s =
     (let blendTarget = blend (cached s)
      in fold (\<lambda>(dx, dy).
                 let rowBase = (iy + dy) * W s;
                     profileRowBase = (dy + r) * tineProfileStride s + r
                 in pass1Cell blendTarget (profileAt tab (profileRowBase + dx))
                      (nat (rowBase + (ix + dx))))
           (carveCells (W s) (H s) r ix iy) (s, []))"

subsection \<open>Pass 2: redistribution\<close>

text \<open>
  The height-weighted colour mix; it is only called with \<open>totalH > 0.001\<close>.
\<close>

definition mixColor :: "jsnum \<Rightarrow> real \<Rightarrow> jsnum \<Rightarrow> real \<Rightarrow> real \<Rightarrow> jsnum" where
  "mixColor old destH src added totalH =
     (case (old, src) of
        (Num c, Num sc) \<Rightarrow> Num ((c * destH + sc * added) / totalH)
      | _ \<Rightarrow> NaN)"

definition inGrid :: "garden \<Rightarrow> int \<Rightarrow> int \<Rightarrow> bool" where
  "inGrid s px py = (px \<ge> 0 \<and> px < W s \<and> py \<ge> 0 \<and> py < H s)"

text \<open>The body of the loop over the kernel, for the deposit centre \<open>(cx, cy)\<close>.\<close>

definition depositCell ::
  "real \<Rightarrow> real \<Rightarrow> jsnum \<times> jsnum \<times> jsnum \<Rightarrow> int \<Rightarrow> int \<Rightarrow> kentry \<Rightarrow> garden \<Rightarrow> garden" where
  "depositCell amount invClipped src cx cy k s =
     (let px = cx + fst k; py = cy + fst (snd k) in
      if px < 0 \<or> px \<ge> W s \<or> py < 0 \<or> py \<ge> H s then s
      else
        let frac = snd (snd k) * invClipped;
            cellAmount = amount * frac;
            cellIdx = nat (py * W s + px);
            destH = sandHeight s ! cellIdx;
            totalH = min (destH + cellAmount) 1.5;
            added = totalH - destH;
            s1 = (if added > 0.0001 \<and> totalH > 0.001 then
                    s\<lparr>sandR := (sandR s)[cellIdx :=
                                  mixColor (sandR s ! cellIdx) destH (fst src) added totalH],
                      sandG := (sandG s)[cellIdx :=
                                  mixColor (sandG s ! cellIdx) destH (fst (snd src)) added totalH],
                      sandB := (sandB s)[cellIdx :=
                                  mixColor (sandB s ! cellIdx) destH (snd (snd src)) added totalH]\<rparr>
                  else s)
        in s1\<lparr>sandHeight := (sandHeight s1)[cellIdx := totalH]\<rparr>)"

definition clippedTotal :: "garden \<Rightarrow> int \<Rightarrow> int \<Rightarrow> real" where
  "clippedTotal s cx cy =
     sum_list (map (\<lambda>k. snd (snd k))
       (filter (\<lambda>k. inGrid s (cx + fst k) (cy + fst (snd k))) (gauss s)))"

text \<open>One deposit centre: the body of the loop over \<open>depI\<close>.\<close>

definition deposit :: "int \<Rightarrow> int \<Rightarrow> real \<Rightarrow> jsnum \<times> jsnum \<times> jsnum \<Rightarrow> garden \<Rightarrow> garden" where
  "deposit cx cy amount src s =
     (let spreadR = spread (cached s);
          depositMarkR = spreadR + 2;
          isInterior = (cx \<ge> spreadR \<and> cx \<le> W s - 1 - spreadR
                          \<and> cy \<ge> spreadR \<and> cy \<le> H s - 1 - spreadR)
      in if \<not> isInterior \<and> clippedTotal s cx cy < 0.001 then s
         else
           let invClipped = (if isInterior then 1.0 else 1 / clippedTotal s cx cy);
               s1 = fold (depositCell amount invClipped src cx cy) (gauss s) s
           in markDirty (real_of_int cx) (real_of_int cy) (real_of_int depositMarkR) s1)"

text \<open>One displacement record: the body of the loop over \<open>i\<close>.\<close>

definition depositDisp :: "int \<Rightarrow> real \<Rightarrow> real \<Rightarrow> disp \<Rightarrow> garden \<Rightarrow> garden" where
  "depositDisp r ndx ndy d s =
     (let srcIdx = fst d; displaced = fst (snd d); src = snd (snd d);
          fwdDist = real_of_int r * fwdD (cached s);
          sideDist = real_of_int r * sideD (cached s);
          perpX = - ndy; perpY = ndx;
          srcPx = int srcIdx mod W s;
          srcPy = (int srcIdx - srcPx) div W s;
          depCX0 = js_round (real_of_int srcPx + ndx * fwdDist);
          depCY0 = js_round (real_of_int srcPy + ndy * fwdDist);
          depAmt0 = displaced * 0.70;
          depCX1 = js_round (real_of_int srcPx + perpX * sideDist);
          depCY1 = js_round (real_of_int srcPy + perpY * sideDist);
          depAmt1 = displaced * 0.15;
          depCX2 = js_round (real_of_int srcPx - perpX * sideDist);
          depCY2 = js_round (real_of_int srcPy - perpY * sideDist);
          depAmt2 = displaced * 0.15
      in deposit depCX2 depCY2 depAmt2 src
           (deposit depCX1 depCY1 depAmt1 src
              (deposit depCX0 depCY0 depAmt0 src s)))"

definition carvePass2 :: "int \<Rightarrow> real \<Rightarrow> real \<Rightarrow> disp list \<Rightarrow> garden \<Rightarrow> garden" where
  "carvePass2 r ndx ndy ds s = fold (depositDisp r ndx ndy) ds s"

subsection \<open>One tine\<close>

definition normalizeDir :: "real \<Rightarrow> real \<Rightarrow> real \<times> real" where
  "normalizeDir dirX dirY =
     (let dirLenSq = dirX * dirX + dirY * dirY in
      if dirLenSq > 0.000001 then
        (let dirLen = sqrt dirLenSq in (dirX / dirLen, dirY / dirLen))
      else (0, 0))"

text \<open>
  The displacement buffers have \<open>MAX_DISP\<close> cells. A record written past their end is
  dropped; pass 2 reads \<open>undefined\<close> there, finds no kernel cell in the grid and skips the
  deposit, so pass 2 sees the first \<open>MAX_DISP\<close> records. The particles spawned at the end
  do not touch the grid.
\<close>

text \<open>
  The two passes, on the state that \<open>rebuildTineProfile\<close> has left and with the table
  \<open>tab\<close>.
\<close>

definition carvePasses ::
  "jsnum list \<Rightarrow> real \<Rightarrow> real \<Rightarrow> real \<Rightarrow> real \<Rightarrow> real \<Rightarrow> garden \<Rightarrow> garden" where
  "carvePasses tab x y radius dirX dirY s =
     (let r = \<lfloor>radius\<rfloor>;
          ix = js_round x;
          iy = js_round y;
          nd = normalizeDir dirX dirY;
          p1 = carvePass1 tab r ix iy s;
          s1 = markDirty (real_of_int ix) (real_of_int iy) (real_of_int (r + 2)) (fst p1)
      in if \<not> diggingMode s1 then carvePass2 r (fst nd) (snd nd) (take MAX_DISP (snd p1)) s1
         else s1)"

text \<open>
  \<open>carveTine\<close>. The first read of the table is the first statement of the loop body of
  pass 1 that follows the tests of the grid bounds, before any write: with \<open>tineProfile\<close>
  still \<open>null\<close> it throws a TypeError if the loops reach a cell of the grid, and with no
  such cell the table is not read at all.
\<close>

definition carveTine :: "real \<Rightarrow> real \<Rightarrow> real \<Rightarrow> real \<Rightarrow> real \<Rightarrow> garden \<Rightarrow> outcome" where
  "carveTine x y radius dirX dirY s =
     (let r = \<lfloor>radius\<rfloor> in
      andThen (rebuildTineProfile r s) (\<lambda>s0.
        case tineProfile s0 of
          None \<Rightarrow>
            if carveCells (W s0) (H s0) r (js_round x) (js_round y) = []
            then Done (carvePasses [] x y radius dirX dirY s0)
            else Thrown TypeError s0
        | Some tab \<Rightarrow> Done (carvePasses tab x y radius dirX dirY s0)))"

section \<open>The core as a state machine\<close>

text \<open>
  The state that the initialisation sequence leaves before the first reset: the arrays
  that \<open>initGarden\<close> allocates are zero-filled and the whole grid is dirty, and the other
  variables have the values of their declarations. The slider values and the kernel are
  those read and built by the same sequence, and \<open>maxLen\<close> is the limit of the engine. A
  negative size or one above the limit makes the allocation throw a RangeError, and a side
  of length zero makes \<open>createImageData\<close> throw an IndexSizeError (\<open>None\<close> for both).
\<close>

definition initGarden :: "nat \<Rightarrow> int \<Rightarrow> int \<Rightarrow> settings \<Rightarrow> kentry list \<Rightarrow> garden option" where
  "initGarden maxLen width height cfg k =
     (if width * height < 0 \<or> nat (width * height) > maxLen then None
      else if width = 0 \<or> height = 0 then None
      else
        let n = nat (width * height) in
        Some \<lparr>W = width, H = height, totalPixels = n,
              sandHeight = replicate n 0, sandR = replicate n (Num 0),
              sandG = replicate n (Num 0), sandB = replicate n (Num 0),
              noiseMap = replicate n 0,
              diggingMode = False, savedGardenState = None,
              undoStack = [], redoStack = [],
              dirtyMinX = 0, dirtyMinY = 0, dirtyMaxX = width - 1, dirtyMaxY = height - 1,
              dirtyEmpty = False, cached = cfg, gauss = k,
              quotePixels = None,
              tineProfileR = - 1, tineProfileDepth = - 1, tineProfileRim = - 1,
              tineProfile = None, tineProfileStride = 0,
              arrayLimit = maxLen\<rparr>)"

text \<open>
  The operations of the core: one tine carve, the history, the reset, the toggle of the
  digging mode (the click handler of the dig button) and the flush of the renderer, which
  resets the dirty rectangle. \<open>run\<close> is the page over a sequence of operations: each one
  starts in the state that the one before it has left, whether that one returned or threw.
\<close>

datatype op =
    Carve real real real real real
  | SaveState
  | Undo
  | Redo
  | ClearSand "nat \<Rightarrow> real"
  | ToggleDig "nat \<Rightarrow> real" "nat \<Rightarrow> nat"
  | Flush

fun step :: "op \<Rightarrow> garden \<Rightarrow> outcome" where
  "step (Carve x y radius dirX dirY) s = carveTine x y radius dirX dirY s"
| "step SaveState s = Done (saveState s)"
| "step Undo s = undo s"
| "step Redo s = redo s"
| "step (ClearSand rnd) s = Done (clearSand rnd s)"
| "step (ToggleDig rnd alpha) s =
     (if diggingMode s then exitDiggingMode s else enterDiggingMode rnd alpha s)"
| "step Flush s = Done (resetDirty s)"

fun run :: "op list \<Rightarrow> garden \<Rightarrow> garden" where
  "run [] s = s"
| "run (c # cs) s = run cs (stateOf (step c s))"

text \<open>
  A sequence of \<open>carveTine\<close> calls, each given as \<open>(x, y, radius, dirX, dirY)\<close> and each
  starting in the state that the call before it has left.
\<close>

fun carveAll :: "(real \<times> real \<times> real \<times> real \<times> real) list \<Rightarrow> garden \<Rightarrow> garden" where
  "carveAll [] s = s"
| "carveAll ((x, y, radius, dirX, dirY) # cs) s =
     carveAll cs (stateOf (carveTine x y radius dirX dirY s))"

section \<open>Predicates of the properties\<close>

text \<open>
  Two states agree on everything but the contents of the height and colour arrays, the
  dirty rectangle and the profile cache.
\<close>

definition sameFrame :: "garden \<Rightarrow> garden \<Rightarrow> bool" where
  "sameFrame s t =
     (W t = W s \<and> H t = H s \<and> totalPixels t = totalPixels s
      \<and> length (sandHeight t) = length (sandHeight s)
      \<and> length (sandR t) = length (sandR s)
      \<and> length (sandG t) = length (sandG s)
      \<and> length (sandB t) = length (sandB s)
      \<and> noiseMap t = noiseMap s
      \<and> diggingMode t = diggingMode s
      \<and> savedGardenState t = savedGardenState s
      \<and> undoStack t = undoStack s \<and> redoStack t = redoStack s
      \<and> cached t = cached s \<and> gauss t = gauss s
      \<and> quotePixels t = quotePixels s \<and> arrayLimit t = arrayLimit s)"

text \<open>
  A small garden for instantiating the theorems: five by three cells, as \<open>initGarden\<close>
  and \<open>initSand\<close> leave it, with the kernel built for the spread radius 1, in an engine
  that allocates every array that the language allows.
\<close>

definition demoSettings :: settings where
  "demoSettings = \<lparr>depth = 0.3, rim = 0.1, blend = 0.5, spread = 1, fwdD = 1.5, sideD = 1\<rparr>"

definition demoLimit :: nat where
  "demoLimit = 2 ^ 53 - 1"


text \<open>
  A garden of 160 by 120 cells, set up in the same way: the least side of a grid for
  which \<open>buildQuotePixels\<close> goes through is 117.
\<close>

definition wideGarden :: garden where
  "wideGarden =
     initSand (the (initGarden demoLimit 160 120 demoSettings (the (rebuildGaussKernel 1))))"

text \<open>The offsets and the weights of a kernel, and the offsets of the disk of radius \<open>r\<close>.\<close>

definition kernelOffsets :: "kentry list \<Rightarrow> (int \<times> int) list" where
  "kernelOffsets k = map (\<lambda>e. (fst e, fst (snd e))) k"

definition kernelWeights :: "kentry list \<Rightarrow> real list" where
  "kernelWeights k = map (\<lambda>e. snd (snd e)) k"

definition diskOffsets :: "int \<Rightarrow> (int \<times> int) list" where
  "diskOffsets r =
     concat (map (\<lambda>sy.
       concat (map (\<lambda>sx. if sx * sx + sy * sy > r * r then [] else [(sx, sy)]) [- r ..r]))
     [- r ..r])"

text \<open>The height array and the three colour arrays of two states are equal.\<close>

definition sameGrid :: "garden \<Rightarrow> garden \<Rightarrow> bool" where
  "sameGrid s t =
     (sandHeight t = sandHeight s \<and> sandR t = sandR s \<and> sandG t = sandG s
        \<and> sandB t = sandB s)"

text \<open>
  The wide garden in the digging mode, every random number drawn being 0.6 and the
  canvas of the quote returning the alpha byte 200 on the even pixels and 0 on the odd
  ones.
\<close>

definition demoRnd :: "nat \<Rightarrow> real" where
  "demoRnd k = 0.6"

definition demoAlpha :: "nat \<Rightarrow> nat" where
  "demoAlpha i = (if even i then 200 else 0)"

definition wideDig :: garden where
  "wideDig = stateOf (enterDiggingMode demoRnd demoAlpha wideGarden)"

text \<open>
  The height that the body of the loop of pass 1 leaves in a cell of height \<open>h\<close> whose
  profile entry is \<open>t\<close>.
\<close>

definition pass1Height :: "bool \<Rightarrow> real \<Rightarrow> jsnum \<Rightarrow> real \<Rightarrow> real" where
  "pass1Height dig b t h =
     (if js_lt t 0 then h
      else if dig then
        (if js_ge t 1.0 then h
         else (case digNewH b h t of Num n \<Rightarrow> if h > n then n else h | _ \<Rightarrow> h))
      else
        (case t of Num tv \<Rightarrow> (if h > h * (1 - b) + tv * b then h * (1 - b) + tv * b else h)
         | _ \<Rightarrow> h))"

text \<open>
  The arrays have one cell for each pixel, and the heights of a list lie in a range.
\<close>

definition wfGrid :: "garden \<Rightarrow> bool" where
  "wfGrid s =
     (totalPixels s = nat (W s * H s)
      \<and> length (sandHeight s) = totalPixels s \<and> length (sandR s) = totalPixels s
      \<and> length (sandG s) = totalPixels s \<and> length (sandB s) = totalPixels s
      \<and> length (noiseMap s) = totalPixels s)"

definition heightsIn :: "real \<Rightarrow> real \<Rightarrow> real list \<Rightarrow> bool" where
  "heightsIn lo hi hs = list_all (\<lambda>h. lo \<le> h \<and> h \<le> hi) hs"


text \<open>The index of the cell \<open>(px, py)\<close> in the arrays.\<close>

definition cellIndex :: "garden \<Rightarrow> int \<Rightarrow> int \<Rightarrow> nat" where
  "cellIndex s px py = nat (py * W s + px)"

text \<open>The test \<open>isInterior\<close> of pass 2 for the deposit centre \<open>(cx, cy)\<close>.\<close>

definition isInterior :: "garden \<Rightarrow> int \<Rightarrow> int \<Rightarrow> bool" where
  "isInterior t cx cy =
     (cx \<ge> spread (cached t) \<and> cx \<le> W t - 1 - spread (cached t)
        \<and> cy \<ge> spread (cached t) \<and> cy \<le> H t - 1 - spread (cached t))"

text \<open>
  The state in which the initialisation sequence calls \<open>clearSand\<close> for the first time,
  on a canvas of 160 by 120 pixels: \<open>initGarden\<close> has allocated the arrays and nothing has
  filled them.
\<close>

definition bootGarden :: garden where
  "bootGarden = the (initGarden demoLimit 160 120 demoSettings (the (rebuildGaussKernel 1)))"

text \<open>
  The profile cache is consistent: a table is held for the stored key, with its stride.
  A stored radius below zero is met by the declarations of the script (radius \<open>-1\<close>, no
  table), and a table of such a radius is never read.
\<close>

definition cacheOk :: "garden \<Rightarrow> bool" where
  "cacheOk s =
     (0 \<le> tineProfileR s \<longrightarrow>
        tineProfile s = Some (tineProfileTable (tineProfileR s) (tineProfileDepth s)
                                (tineProfileRim s))
        \<and> tineProfileStride s = 2 * tineProfileR s + 1)"

text \<open>The accounting of a carve: the sum of the rises and the sum of the drops of the
  heights between two grids, cell by cell, and the total amount of a list of displacement
  records.\<close>

definition posDelta :: "real list \<Rightarrow> real list \<Rightarrow> real" where
  "posDelta a b = (\<Sum>i<length a. max 0 (b ! i - a ! i))"





text \<open>The test that lets the loop of \<open>buildQuotePixels\<close> run: the first font size is at least 14.\<close>

definition quoteFits :: "garden \<Rightarrow> bool" where
  "quoteFits s = (14 \<le> \<lfloor>real_of_int (min (W s) (H s)) * 0.12\<rfloor>)"

text \<open>
  The colours that the body of the loop of pass 1 leaves in a cell of height \<open>h\<close> and
  colours \<open>old\<close> whose profile entry is \<open>t\<close>: the digging mode writes the colour of the new
  depth, before the test that decides whether the height is written.
\<close>

definition pass1Colour ::
  "bool \<Rightarrow> real \<Rightarrow> jsnum \<Rightarrow> real \<Rightarrow> jsnum \<times> jsnum \<times> jsnum \<Rightarrow> jsnum \<times> jsnum \<times> jsnum" where
  "pass1Colour dig b t h old =
     (if js_lt t 0 then old
      else if dig then (if js_ge t 1.0 then old else getDiggingColor (digNewH b h t))
      else old)"



section \<open>What a carve leaves alone\<close>

lemma sameFrame_refl [simp]: "sameFrame s s"
  by (simp add: sameFrame_def)

lemma sameFrame_trans: "sameFrame s t \<Longrightarrow> sameFrame t u \<Longrightarrow> sameFrame s u"
  by (simp add: sameFrame_def)

lemma sameFrame_markDirty: "sameFrame s (markDirty x y rad s)"
  by (simp add: sameFrame_def markDirty_def Let_def)

lemma sameFrame_recordDisp: "sameFrame (fst sd) (fst (recordDisp idx c n sd))"
  by (cases n) (simp_all add: recordDisp_def sameFrame_def Let_def)

lemma sameFrame_pass1Cell: "sameFrame (fst sd) (fst (pass1Cell b t idx sd))"
proof -
  have dig: "sameFrame (fst sd) (fst (recordDisp idx c n (fst sd\<lparr>sandR := (sandR (fst sd))[idx := cr],
         sandG := (sandG (fst sd))[idx := cg], sandB := (sandB (fst sd))[idx := cb]\<rparr>, snd sd)))"
    for c n cr cg cb
    by (rule sameFrame_trans[OF _ sameFrame_recordDisp]) (simp add: sameFrame_def)
  show ?thesis
    unfolding pass1Cell_def Let_def
    by (simp add: dig sameFrame_recordDisp)
qed

lemma sameFrame_fold_pair:
  assumes "\<And>c sd. sameFrame (fst sd) (fst (f c sd))"
  shows "sameFrame (fst sd) (fst (fold f cs sd))"
proof (induction cs arbitrary: sd)
  case Nil
  show ?case by simp
next
  case (Cons c cs)
  show ?case using sameFrame_trans[OF assms[of sd c] Cons[of "f c sd"]] by simp
qed

lemma sameFrame_carvePass1: "sameFrame s (fst (carvePass1 tab r ix iy s))"
proof -
  define F where "F = (\<lambda>(dx, dy).
                 let rowBase = (iy + dy) * W s;
                     profileRowBase = (dy + r) * tineProfileStride s + r
                 in pass1Cell (blend (cached s)) (profileAt tab (profileRowBase + dx))
                      (nat (rowBase + (ix + dx))))"
  have "\<And>c sd. sameFrame (fst sd) (fst (F c sd))"
    by (simp add: F_def sameFrame_pass1Cell split: prod.splits)
  from sameFrame_fold_pair[of F, OF this, of "(s, [])"]
  show ?thesis
    unfolding carvePass1_def Let_def F_def by simp
qed

lemma sameFrame_fold:
  assumes "\<And>c t. sameFrame t (f c t)"
  shows "sameFrame t (fold f cs t)"
proof (induction cs arbitrary: t)
  case Nil
  show ?case by simp
next
  case (Cons c cs)
  show ?case using sameFrame_trans[OF assms[of t c] Cons[of "f c t"]] by simp
qed

lemma sameFrame_depositCell: "sameFrame t (depositCell a ic src cx cy k t)"
  unfolding depositCell_def Let_def by (simp add: sameFrame_def)

lemma sameFrame_deposit: "sameFrame t (deposit cx cy a src t)"
  unfolding deposit_def Let_def
  by (auto intro!: sameFrame_trans[OF _ sameFrame_markDirty] sameFrame_fold sameFrame_depositCell)

lemma sameFrame_depositDisp: "sameFrame t (depositDisp r ndx ndy d t)"
  unfolding depositDisp_def Let_def
  by (blast intro: sameFrame_trans sameFrame_deposit)

lemma sameFrame_carvePass2: "sameFrame t (carvePass2 r ndx ndy ds t)"
  unfolding carvePass2_def by (rule sameFrame_fold) (rule sameFrame_depositDisp)

lemma sameFrame_carvePasses: "sameFrame s (carvePasses tab x y radius dirX dirY s)"
proof -
  let ?s1 = "markDirty (real_of_int (js_round x)) (real_of_int (js_round y))
     (real_of_int (\<lfloor>radius\<rfloor> + 2)) (fst (carvePass1 tab \<lfloor>radius\<rfloor> (js_round x) (js_round y) s))"
  have a: "sameFrame s ?s1"
    by (rule sameFrame_trans[OF sameFrame_carvePass1 sameFrame_markDirty])
  show ?thesis
    unfolding carvePasses_def Let_def
    using a sameFrame_trans[OF a sameFrame_carvePass2] by simp
qed

text \<open>
  The outcomes of \<open>rebuildTineProfile\<close> and of \<open>carveTine\<close>, case by case, and what they
  leave alone whether they return or throw.
\<close>

lemma rebuildTineProfile_hit:
  assumes "r = tineProfileR s" "depth (cached s) = tineProfileDepth s"
    "rim (cached s) = tineProfileRim s"
  shows "rebuildTineProfile r s = Done s"
  using assms by (simp add: rebuildTineProfile_def)

lemma rebuildTineProfile_miss:
  assumes "\<not> (r = tineProfileR s \<and> depth (cached s) = tineProfileDepth s
             \<and> rim (cached s) = tineProfileRim s)"
  shows "rebuildTineProfile r s =
     (if nat ((2 * r + 1) * (2 * r + 1)) > arrayLimit s
      then Thrown RangeError (s\<lparr>tineProfileR := r, tineProfileDepth := depth (cached s),
            tineProfileRim := rim (cached s), tineProfileStride := 2 * r + 1\<rparr>)
      else Done (s\<lparr>tineProfileR := r, tineProfileDepth := depth (cached s),
            tineProfileRim := rim (cached s), tineProfileStride := 2 * r + 1,
            tineProfile := Some (tineProfileTable r (depth (cached s)) (rim (cached s)))\<rparr>))"
  using assms unfolding rebuildTineProfile_def Let_def by (simp only: if_False)

lemma rebuildTineProfile_cases:
  obtains (hit) "rebuildTineProfile r s = Done s"
      "r = tineProfileR s" "depth (cached s) = tineProfileDepth s"
      "rim (cached s) = tineProfileRim s"
  | (full) "nat ((2 * r + 1) * (2 * r + 1)) > arrayLimit s"
      "rebuildTineProfile r s =
         Thrown RangeError (s\<lparr>tineProfileR := r, tineProfileDepth := depth (cached s),
            tineProfileRim := rim (cached s), tineProfileStride := 2 * r + 1\<rparr>)"
  | (built) "nat ((2 * r + 1) * (2 * r + 1)) \<le> arrayLimit s"
      "rebuildTineProfile r s =
         Done (s\<lparr>tineProfileR := r, tineProfileDepth := depth (cached s),
            tineProfileRim := rim (cached s), tineProfileStride := 2 * r + 1,
            tineProfile := Some (tineProfileTable r (depth (cached s)) (rim (cached s)))\<rparr>)"
proof (cases "r = tineProfileR s \<and> depth (cached s) = tineProfileDepth s
        \<and> rim (cached s) = tineProfileRim s")
  case True
  then show ?thesis using hit rebuildTineProfile_hit[of r s] by blast
next
  case False
  show ?thesis
  proof (cases "nat ((2 * r + 1) * (2 * r + 1)) > arrayLimit s")
    case True
    then show ?thesis using full rebuildTineProfile_miss[OF False] by (simp only: if_True)
  next
    case False': False
    then have "nat ((2 * r + 1) * (2 * r + 1)) \<le> arrayLimit s" by simp
    then show ?thesis using built rebuildTineProfile_miss[OF False] False' by (simp only: if_False)
  qed
qed

lemma rebuildTineProfile_frame:
  "sameFrame s (stateOf (rebuildTineProfile r s))"
  "sameGrid s (stateOf (rebuildTineProfile r s))"
  "dirtyEmpty (stateOf (rebuildTineProfile r s)) = dirtyEmpty s"
  "dirtyMinX (stateOf (rebuildTineProfile r s)) = dirtyMinX s"
  "dirtyMinY (stateOf (rebuildTineProfile r s)) = dirtyMinY s"
  "dirtyMaxX (stateOf (rebuildTineProfile r s)) = dirtyMaxX s"
  "dirtyMaxY (stateOf (rebuildTineProfile r s)) = dirtyMaxY s"
  by (cases r s rule: rebuildTineProfile_cases; simp add: sameFrame_def sameGrid_def)+


lemma carveTine_cases:
  obtains (full) s0 where "rebuildTineProfile \<lfloor>radius\<rfloor> s = Thrown RangeError s0"
      "carveTine x y radius dirX dirY s = Thrown RangeError s0"
  | (null) s0 where "rebuildTineProfile \<lfloor>radius\<rfloor> s = Done s0" "tineProfile s0 = None"
      "carveCells (W s0) (H s0) \<lfloor>radius\<rfloor> (js_round x) (js_round y) \<noteq> []"
      "carveTine x y radius dirX dirY s = Thrown TypeError s0"
  | (carved) s0 tab where "rebuildTineProfile \<lfloor>radius\<rfloor> s = Done s0"
      "tineProfile s0 = Some tab
         \<or> tineProfile s0 = None \<and> tab = []
             \<and> carveCells (W s0) (H s0) \<lfloor>radius\<rfloor> (js_round x) (js_round y) = []"
      "carveTine x y radius dirX dirY s = Done (carvePasses tab x y radius dirX dirY s0)"
proof (cases "\<lfloor>radius\<rfloor>" s rule: rebuildTineProfile_cases)
  case full
  then show ?thesis using that(1) by (simp add: carveTine_def)
next
  case hit
  then show ?thesis
    using that(2)[of s] that(3)[of s]
    by (cases "tineProfile s";
        cases "carveCells (W s) (H s) \<lfloor>radius\<rfloor> (js_round x) (js_round y) = []")
       (simp_all add: carveTine_def)
next
  case built
  then show ?thesis
    using that(3) by (simp add: carveTine_def)
qed

lemma sameFrame_carveTine: "sameFrame s (stateOf (carveTine x y radius dirX dirY s))"
proof (cases x y radius dirX dirY s rule: carveTine_cases)
  case (full s0)
  then show ?thesis using rebuildTineProfile_frame(1)[of s "\<lfloor>radius\<rfloor>"] by simp
next
  case (null s0)
  then show ?thesis using rebuildTineProfile_frame(1)[of s "\<lfloor>radius\<rfloor>"] by simp
next
  case (carved s0 tab)
  then show ?thesis
    using rebuildTineProfile_frame(1)[of s "\<lfloor>radius\<rfloor>"]
      sameFrame_trans[OF _ sameFrame_carvePasses, of s s0 tab x y radius dirX dirY]
    by simp
qed

section \<open>The digging session\<close>

lemma typedSet_same_length: "length src = length dst \<Longrightarrow> typedSet dst src = Some src"
  by (simp add: typedSet_def)

lemma restoreState_same_length:
  assumes "length (snapH st) = length (sandHeight s)" "length (snapR st) = length (sandR s)"
    "length (snapG st) = length (sandG s)" "length (snapB st) = length (sandB s)"
  shows "restoreState st s =
     Done (s\<lparr>sandHeight := snapH st, sandR := snapR st, sandG := snapG st, sandB := snapB st\<rparr>)"
  using assms
  by (simp add: restoreState_def setHeights_def setR_def setG_def setB_def typedSet_same_length)

lemma fill_fold:
  "fold (\<lambda>i s. s\<lparr>sandHeight := (sandHeight s)[i := v], sandR := (sandR s)[i := cr],
                  sandG := (sandG s)[i := cg], sandB := (sandB s)[i := cb]\<rparr>) js s =
   s\<lparr>sandHeight := fold (\<lambda>i a. a[i := v]) js (sandHeight s),
     sandR := fold (\<lambda>i a. a[i := cr]) js (sandR s),
     sandG := fold (\<lambda>i a. a[i := cg]) js (sandG s),
     sandB := fold (\<lambda>i a. a[i := cb]) js (sandB s)\<rparr>"
  by (induction js arbitrary: s) simp_all

lemma length_fold_update [simp]: "length (fold (\<lambda>i a. a[i := g i a]) js a) = length a"
  by (induction js arbitrary: a) simp_all

lemma fold_update_const:
  "k \<le> length a \<Longrightarrow> fold (\<lambda>i a. a[i := v]) [0 ..< k] a = replicate k v @ drop k a"
proof (induction k)
  case 0
  show ?case by simp
next
  case (Suc k)
  then have "fold (\<lambda>i a. a[i := v]) [0 ..< Suc k] a = (replicate k v @ drop k a)[k := v]"
    by simp
  also have "\<dots> = replicate k v @ (drop k a)[0 := v]"
    by (simp add: list_update_append)
  also have "(drop k a)[0 := v] = v # drop (Suc k) a"
    using Suc.prems by (cases "drop k a") (simp_all add: drop_Suc drop_tl)
  finally show ?case by (simp add: replicate_append_same)
qed

lemma length_noiseLoop [simp]: "length (noiseLoop rnd k js a) = length a"
  by (induction rnd k js a rule: noiseLoop.induct) (simp_all add: Let_def)

text \<open>The quote fits from a side of 117 cells on.\<close>

lemma quoteFits_iff: "quoteFits s \<longleftrightarrow> 117 \<le> min (W s) (H s)"
proof -
  define m where "m = min (W s) (H s)"
  have "14 \<le> \<lfloor>real_of_int m * 0.12\<rfloor> \<longleftrightarrow> 14 \<le> real_of_int m * 0.12"
    by (simp add: le_floor_iff)
  also have "\<dots> \<longleftrightarrow> 1400 \<le> real_of_int (m * 12)"
    by (simp add: mult.commute)
  also have "\<dots> \<longleftrightarrow> 1400 \<le> m * 12"
    by (metis of_int_le_iff of_int_numeral)
  also have "\<dots> \<longleftrightarrow> 117 \<le> m"
    by presburger
  finally show ?thesis by (simp add: quoteFits_def m_def)
qed

lemma buildQuotePixels_fits:
  "quoteFits s \<Longrightarrow> buildQuotePixels alpha s =
     Done (s\<lparr>quotePixels :=
             Some (map (\<lambda>i. if alpha i > 128 then 1 else 0) [0 ..< totalPixels s])\<rparr>)"
  by (simp add: buildQuotePixels_def quoteFits_def Let_def)

lemma buildQuotePixels_small:
  "\<not> quoteFits s \<Longrightarrow> buildQuotePixels alpha s = Thrown TypeError s"
  by (simp add: buildQuotePixels_def quoteFits_def Let_def)

lemma enterDiggingMode_small:
  assumes "\<not> quoteFits s"
  shows "enterDiggingMode rnd alpha s =
     Thrown TypeError (s\<lparr>savedGardenState := Some (getCurrentState s), undoStack := [],
                         redoStack := []\<rparr>)"
proof -
  have "\<not> quoteFits (s\<lparr>savedGardenState := Some (getCurrentState s), undoStack := [],
                         redoStack := []\<rparr>)"
    using assms by (simp add: quoteFits_def)
  then show ?thesis
    by (simp add: enterDiggingMode_def Let_def buildQuotePixels_small)
qed

lemma enterDiggingMode_fits:
  assumes "quoteFits s"
  shows "enterDiggingMode rnd alpha s =
     Done (s\<lparr>savedGardenState := Some (getCurrentState s), undoStack := [], redoStack := [],
             quotePixels := Some (map (\<lambda>i. if alpha i > 128 then 1 else 0) [0 ..< totalPixels s]),
             sandHeight := fold (\<lambda>i a. a[i := 2.0]) [0 ..< totalPixels s] (sandHeight s),
             sandR := fold (\<lambda>i a. a[i := Num 210]) [0 ..< totalPixels s] (sandR s),
             sandG := fold (\<lambda>i a. a[i := Num 190]) [0 ..< totalPixels s] (sandG s),
             sandB := fold (\<lambda>i a. a[i := Num 160]) [0 ..< totalPixels s] (sandB s),
             noiseMap := noiseLoop rnd 0 [0 ..< totalPixels s] (noiseMap s),
             diggingMode := True,
             dirtyMinX := 0, dirtyMinY := 0, dirtyMaxX := W s - 1, dirtyMaxY := H s - 1,
             dirtyEmpty := False\<rparr>)"
proof -
  have "quoteFits (s\<lparr>savedGardenState := Some (getCurrentState s), undoStack := [],
                         redoStack := []\<rparr>)"
    using assms by (simp add: quoteFits_def)
  then show ?thesis
    by (simp add: enterDiggingMode_def Let_def buildQuotePixels_fits fill_fold
        generateNoiseMap_def markFullDirty_def SAND_COLORS0_def)
qed

lemma enterDiggingMode_sel:
  assumes "enterDiggingMode rnd alpha s = Done t"
  shows "quoteFits s"
    "savedGardenState t = Some (getCurrentState s)"
    "length (sandHeight t) = length (sandHeight s)"
    "length (sandR t) = length (sandR s)"
    "length (sandG t) = length (sandG s)"
    "length (sandB t) = length (sandB s)"
    "diggingMode t"
    "noiseMap t = noiseLoop rnd 0 [0 ..< totalPixels s] (noiseMap s)"
proof -
  show q: "quoteFits s"
    using assms enterDiggingMode_small[of s rnd alpha] by (cases "quoteFits s") simp_all
  from enterDiggingMode_fits[OF q, of rnd alpha] assms
  have t: "t = s\<lparr>savedGardenState := Some (getCurrentState s), undoStack := [], redoStack := [],
             quotePixels := Some (map (\<lambda>i. if alpha i > 128 then 1 else 0) [0 ..< totalPixels s]),
             sandHeight := fold (\<lambda>i a. a[i := 2.0]) [0 ..< totalPixels s] (sandHeight s),
             sandR := fold (\<lambda>i a. a[i := Num 210]) [0 ..< totalPixels s] (sandR s),
             sandG := fold (\<lambda>i a. a[i := Num 190]) [0 ..< totalPixels s] (sandG s),
             sandB := fold (\<lambda>i a. a[i := Num 160]) [0 ..< totalPixels s] (sandB s),
             noiseMap := noiseLoop rnd 0 [0 ..< totalPixels s] (noiseMap s),
             diggingMode := True,
             dirtyMinX := 0, dirtyMinY := 0, dirtyMaxX := W s - 1, dirtyMaxY := H s - 1,
             dirtyEmpty := False\<rparr>"
    by simp
  show "savedGardenState t = Some (getCurrentState s)"
    "length (sandHeight t) = length (sandHeight s)"
    "length (sandR t) = length (sandR s)"
    "length (sandG t) = length (sandG s)"
    "length (sandB t) = length (sandB s)"
    "diggingMode t"
    "noiseMap t = noiseLoop rnd 0 [0 ..< totalPixels s] (noiseMap s)"
    unfolding t by simp_all
qed

lemma sameFrame_carveAll: "sameFrame s (carveAll cs s)"
proof (induction cs arbitrary: s)
  case Nil
  show ?case by simp
next
  case (Cons c cs)
  obtain x y radius dirX dirY where c: "c = (x, y, radius, dirX, dirY)"
    by (cases c) auto
  show ?case
    unfolding c carveAll.simps
    by (rule sameFrame_trans[OF sameFrame_carveTine Cons])
qed

lemma exit_after_session:
  assumes "enterDiggingMode rnd alpha s = Done s1" "sameFrame s1 t"
  shows "\<exists>u. exitDiggingMode t = Done u
     \<and> sandHeight u = sandHeight s \<and> sandR u = sandR s
     \<and> sandG u = sandG s \<and> sandB u = sandB s \<and> noiseMap u = noiseMap s1
     \<and> \<not> diggingMode u \<and> savedGardenState u = None \<and> quotePixels u = None"
proof -
  from assms have sv: "savedGardenState t = Some (getCurrentState s)"
    and len: "length (sandHeight t) = length (sandHeight s)" "length (sandR t) = length (sandR s)"
      "length (sandG t) = length (sandG s)" "length (sandB t) = length (sandB s)"
    and nz: "noiseMap t = noiseMap s1"
    by (simp_all add: sameFrame_def enterDiggingMode_sel)
  have "restoreState (getCurrentState s) t =
     Done (t\<lparr>sandHeight := sandHeight s, sandR := sandR s, sandG := sandG s, sandB := sandB s\<rparr>)"
    using restoreState_same_length[of "getCurrentState s" t] len
    by (simp add: getCurrentState_def)
  then show ?thesis
    by (simp add: exitDiggingMode_def sv markFullDirty_def nz)
qed

lemma initSand_sel:
  "initSand s = s\<lparr>sandHeight := fold (\<lambda>i a. a[i := 1.0]) [0 ..< totalPixels s] (sandHeight s),
     sandR := fold (\<lambda>i a. a[i := Num 210]) [0 ..< totalPixels s] (sandR s),
     sandG := fold (\<lambda>i a. a[i := Num 190]) [0 ..< totalPixels s] (sandG s),
     sandB := fold (\<lambda>i a. a[i := Num 160]) [0 ..< totalPixels s] (sandB s)\<rparr>"
  unfolding initSand_def SAND_COLORS0_def fst_conv snd_conv
  by (rule fill_fold)


lemma wideGarden_eq:
  "wideGarden = \<lparr>W = 160, H = 120, totalPixels = 19200,
              sandHeight = replicate 19200 1, sandR = replicate 19200 (Num 210),
              sandG = replicate 19200 (Num 190), sandB = replicate 19200 (Num 160),
              noiseMap = replicate 19200 0,
              diggingMode = False, savedGardenState = None,
              undoStack = [], redoStack = [],
              dirtyMinX = 0, dirtyMinY = 0, dirtyMaxX = 159, dirtyMaxY = 119,
              dirtyEmpty = False, cached = demoSettings, gauss = the (rebuildGaussKernel 1),
              quotePixels = None,
              tineProfileR = - 1, tineProfileDepth = - 1, tineProfileRim = - 1,
              tineProfile = None, tineProfileStride = 0,
              arrayLimit = demoLimit\<rparr>"
  by (simp add: wideGarden_def initGarden_def initSand_sel fold_update_const Let_def demoLimit_def)

lemma wideGarden_sel:
  "W wideGarden = 160" "H wideGarden = 120" "totalPixels wideGarden = 19200"
  "\<not> diggingMode wideGarden"
  "sandHeight wideGarden = replicate 19200 1" "sandR wideGarden = replicate 19200 (Num 210)"
  "sandG wideGarden = replicate 19200 (Num 190)" "sandB wideGarden = replicate 19200 (Num 160)"
  "noiseMap wideGarden = replicate 19200 0"
  "cached wideGarden = demoSettings" "gauss wideGarden = the (rebuildGaussKernel 1)"
  "arrayLimit wideGarden = demoLimit" "tineProfileR wideGarden = - 1"
  "tineProfile wideGarden = None"
  by (simp_all add: wideGarden_eq)

lemma wideGarden_fits: "quoteFits wideGarden"
  by (simp add: quoteFits_iff wideGarden_sel)

lemma noiseLoop_const:
  "\<not> c < 0.03 \<Longrightarrow> noiseLoop (\<lambda>k. c) k js a = fold (\<lambda>i a. a[i := (c - 0.5) * 10]) js a"
  by (induction js arbitrary: k a) (simp_all add: Let_def)

text \<open>
  C3. On a grid whose sides are at least 117 cells long, \<open>enterDiggingMode\<close> returns, and
  then any number of \<open>carveTine\<close> calls, each in the digging mode and each starting where
  the one before it stopped (returned or thrown), followed by \<open>exitDiggingMode\<close>, give back
  the height array and the three colour arrays of the state before the entry, cell for
  cell: the snapshot held during the session is the one taken at the entry, whatever
  the carves did to the grid.
\<close>

theorem dig_then_exit_identity:
  assumes "117 \<le> min (W s) (H s)"
  shows "\<exists>s1. enterDiggingMode rnd alpha s = Done s1
     \<and> diggingMode (carveAll cs s1)
     \<and> savedGardenState (carveAll cs s1) = Some (getCurrentState s)
     \<and> (\<exists>u. exitDiggingMode (carveAll cs s1) = Done u
          \<and> sandHeight u = sandHeight s \<and> sandR u = sandR s
          \<and> sandG u = sandG s \<and> sandB u = sandB s)"
proof -
  from assms have "quoteFits s" by (simp add: quoteFits_iff)
  then obtain s1 where e: "enterDiggingMode rnd alpha s = Done s1"
    using enterDiggingMode_fits[of s rnd alpha] by simp
  have fr: "sameFrame s1 (carveAll cs s1)" by (rule sameFrame_carveAll)
  have "diggingMode (carveAll cs s1)"
    "savedGardenState (carveAll cs s1) = Some (getCurrentState s)"
    using fr enterDiggingMode_sel[OF e] by (simp_all add: sameFrame_def)
  moreover have "\<exists>u. exitDiggingMode (carveAll cs s1) = Done u
          \<and> sandHeight u = sandHeight s \<and> sandR u = sandR s
          \<and> sandG u = sandG s \<and> sandB u = sandB s"
    using exit_after_session[OF e fr] by blast
  ultimately show ?thesis using e by blast
qed

text \<open>
  The session on the wide garden, with a carve of radius 3, one of radius 0 and one
  whose table the engine refuses.
\<close>

theorem dig_then_exit_identity_witness:
  "117 \<le> min (W wideGarden) (H wideGarden)
   \<and> (\<exists>s1 u. enterDiggingMode demoRnd demoAlpha wideGarden = Done s1
        \<and> exitDiggingMode
             (carveAll [(80, 60, 3, 1, 0), (81, 60, 0, 0, 0), (20, 20, 1000000000, 0, 1)] s1)
           = Done u
        \<and> sandHeight u = replicate 19200 1 \<and> sandR u = replicate 19200 (Num 210)
        \<and> sandG u = replicate 19200 (Num 190) \<and> sandB u = replicate 19200 (Num 160))"
  using dig_then_exit_identity[of wideGarden demoRnd demoAlpha
      "[(80, 60, 3, 1, 0), (81, 60, 0, 0, 0), (20, 20, 1000000000, 0, 1)]"]
  by (simp add: wideGarden_sel) blast

text \<open>
  C10. Leaving the digging mode restores the heights and the three colour channels
  from the snapshot taken at the entry and nothing else: the noise array keeps the values
  that were generated at the entry. So a round trip, on a grid that the mode can be
  entered on, gives back every per-cell field but the noise, and the noise differs from
  the one before the entry in general, as it does on the wide garden when every random
  number drawn is 0.6.
\<close>

theorem exit_restores_all_but_noise:
  "(117 \<le> min (W s) (H s) \<longrightarrow>
      (\<exists>s1 u. enterDiggingMode rnd alpha s = Done s1 \<and> exitDiggingMode s1 = Done u
        \<and> sandHeight u = sandHeight s \<and> sandR u = sandR s
        \<and> sandG u = sandG s \<and> sandB u = sandB s
        \<and> noiseMap s1 = noiseLoop rnd 0 [0 ..< totalPixels s] (noiseMap s)
        \<and> noiseMap u = noiseMap s1))
   \<and> (\<exists>s1 u. enterDiggingMode demoRnd demoAlpha wideGarden = Done s1
          \<and> exitDiggingMode s1 = Done u
          \<and> noiseMap u \<noteq> noiseMap wideGarden)"
proof (intro conjI impI)
  assume "117 \<le> min (W s) (H s)"
  then have "quoteFits s" by (simp add: quoteFits_iff)
  then obtain s1 where e: "enterDiggingMode rnd alpha s = Done s1"
    using enterDiggingMode_fits[of s rnd alpha] by simp
  show "\<exists>s1 u. enterDiggingMode rnd alpha s = Done s1 \<and> exitDiggingMode s1 = Done u
        \<and> sandHeight u = sandHeight s \<and> sandR u = sandR s
        \<and> sandG u = sandG s \<and> sandB u = sandB s
        \<and> noiseMap s1 = noiseLoop rnd 0 [0 ..< totalPixels s] (noiseMap s)
        \<and> noiseMap u = noiseMap s1"
    using exit_after_session[OF e sameFrame_refl] e enterDiggingMode_sel(8)[OF e]
    by blast
next
  obtain s1 where e: "enterDiggingMode demoRnd demoAlpha wideGarden = Done s1"
    using enterDiggingMode_fits[OF wideGarden_fits, of demoRnd demoAlpha] by simp
  have "noiseLoop (\<lambda>k. 0.6) 0 [0 ..< 19200] (replicate 19200 0) \<noteq> replicate 19200 0"
    by (simp add: noiseLoop_const fold_update_const)
  then have "noiseMap s1 \<noteq> noiseMap wideGarden"
    using enterDiggingMode_sel(8)[OF e] by (simp add: wideGarden_sel demoRnd_def[abs_def])
  then show "\<exists>s1 u. enterDiggingMode demoRnd demoAlpha wideGarden = Done s1
          \<and> exitDiggingMode s1 = Done u
          \<and> noiseMap u \<noteq> noiseMap wideGarden"
    using exit_after_session[OF e sameFrame_refl] e by auto
qed

theorem exit_restores_all_but_noise_witness:
  "117 \<le> min (W wideGarden) (H wideGarden)
   \<and> (\<exists>s1 u. enterDiggingMode demoRnd demoAlpha wideGarden = Done s1
         \<and> exitDiggingMode s1 = Done u
         \<and> sandHeight u = replicate 19200 1 \<and> sandR u = replicate 19200 (Num 210)
         \<and> sandG u = replicate 19200 (Num 190) \<and> sandB u = replicate 19200 (Num 160)
         \<and> noiseMap u = noiseLoop demoRnd 0 [0 ..< 19200] (replicate 19200 0)
         \<and> noiseMap u \<noteq> replicate 19200 0)"
proof -
  have f: "117 \<le> min (W wideGarden) (H wideGarden)"
    by (simp add: wideGarden_sel)
  have n: "noiseLoop demoRnd 0 [0 ..< 19200] (replicate 19200 0) \<noteq> replicate 19200 0"
    by (simp add: demoRnd_def[abs_def] noiseLoop_const fold_update_const)
  from exit_restores_all_but_noise[of wideGarden demoRnd demoAlpha, THEN conjunct1, THEN mp, OF f]
  show ?thesis
    using f n by (auto simp: wideGarden_sel)
qed

section \<open>The kernel\<close>

lemma kernelOffsets_entries: "kernelOffsets (kernelEntries r) = diskOffsets r"
  unfolding kernelOffsets_def kernelEntries_def diskOffsets_def
  by (simp add: map_concat comp_def if_distrib[of "map _"] cong: if_cong)

lemma sq_le_bound:
  fixes a r :: int
  assumes "a * a + b * b \<le> r * r" "0 \<le> r"
  shows "- r \<le> a \<and> a \<le> r"
proof -
  have "a * a \<le> r * r"
    using assms(1) zero_le_square[of b] by linarith
  then have "\<bar>a\<bar> \<le> \<bar>r\<bar>"
    by (simp add: abs_le_square_iff power2_eq_square)
  with assms(2) show ?thesis by linarith
qed

lemma set_kernelEntries:
  "set (kernelEntries r) =
     {(sx, sy, w). - r \<le> sx \<and> sx \<le> r \<and> - r \<le> sy \<and> sy \<le> r
        \<and> sx * sx + sy * sy \<le> r * r \<and> w = kernelWeight r sx sy}"
  unfolding kernelEntries_def by (auto split: if_splits)

lemma set_diskOffsets:
  assumes "0 \<le> r"
  shows "set (diskOffsets r) = {(sx, sy). sx * sx + sy * sy \<le> r * r}"
proof -
  have "set (diskOffsets r) =
     {(sx, sy). - r \<le> sx \<and> sx \<le> r \<and> - r \<le> sy \<and> sy \<le> r \<and> sx * sx + sy * sy \<le> r * r}"
    unfolding diskOffsets_def by (auto split: if_splits)
  also have "\<dots> = {(sx, sy). sx * sx + sy * sy \<le> r * r}"
  proof -
    have "- r \<le> a \<and> a \<le> r \<and> - r \<le> b \<and> b \<le> r" if "a * a + b * b \<le> r * r" for a b
      using sq_le_bound[OF that assms] sq_le_bound[of b a r] that assms
      by (simp add: add.commute)
    then show ?thesis by auto
  qed
  finally show ?thesis .
qed

lemma distinct_concat_map:
  assumes "distinct xs" "\<And>x. x \<in> set xs \<Longrightarrow> distinct (f x)"
    "\<And>x y. x \<in> set xs \<Longrightarrow> y \<in> set xs \<Longrightarrow> x \<noteq> y \<Longrightarrow> set (f x) \<inter> set (f y) = {}"
  shows "distinct (concat (map f xs))"
  using assms
proof (induction xs)
  case Nil
  show ?case by simp
next
  case (Cons x xs)
  have "distinct (concat (map f xs))"
    using Cons by simp
  moreover have "set (f x) \<inter> set (f y) = {}" if "y \<in> set xs" for y
    using Cons.prems(1) that Cons.prems(3)[of x y] by auto
  ultimately show ?case
    using Cons.prems(2)[of x] by auto
qed

lemma distinct_diskOffsets: "distinct (diskOffsets r)"
  unfolding diskOffsets_def
proof (rule distinct_concat_map)
  show "distinct [- r..r]" by simp
next
  fix sy
  show "distinct (concat (map (\<lambda>sx. if r * r < sx * sx + sy * sy then [] else [(sx, sy)]) [- r..r]))"
    by (rule distinct_concat_map) (auto split: if_splits)
next
  fix sy sy' :: int
  assume "sy \<noteq> sy'"
  then show "set (concat (map (\<lambda>sx. if r * r < sx * sx + sy * sy then [] else [(sx, sy)]) [- r..r]))
     \<inter> set (concat (map (\<lambda>sx. if r * r < sx * sx + sy' * sy' then [] else [(sx, sy')]) [- r..r])) = {}"
    by (auto split: if_splits)
qed

lemma kernelWeight_pos: "0 < kernelWeight r sx sy"
  by (simp add: kernelWeight_def Let_def)

lemma kernelWeight_formula:
  "kernelWeight r sx sy =
     exp (- real_of_int (sx * sx + sy * sy) / (2 * (0.75 * real_of_int r)\<^sup>2))"
proof -
  have "- real_of_int (sx * sx + sy * sy) * (1 / (2 * (real_of_int r * 0.75) * (real_of_int r * 0.75)))
      = - real_of_int (sx * sx + sy * sy) / (2 * (0.75 * real_of_int r)\<^sup>2)"
    by (simp add: power2_eq_square mult.commute)
  then show ?thesis
    by (simp only: kernelWeight_def Let_def)
qed

lemma sum_list_pos_weights:
  assumes "\<And>e. e \<in> set k \<Longrightarrow> 0 < snd (snd e)" "k \<noteq> []"
  shows "0 < sum_list (map (\<lambda>e. snd (snd e)) (k :: kentry list))"
  using assms
proof (induction k)
  case Nil
  then show ?case by simp
next
  case (Cons e k)
  show ?case
  proof (cases "k = []")
    case True
    then show ?thesis using Cons.prems(1)[of e] by simp
  next
    case False
    then have "0 < sum_list (map (\<lambda>e. snd (snd e)) k)"
      using Cons by simp
    then show ?thesis using Cons.prems(1)[of e] by simp
  qed
qed

lemma kernelTotal_pos:
  assumes "0 \<le> r"
  shows "0 < kernelTotal r"
proof -
  have "(0, 0, kernelWeight r 0 0) \<in> set (kernelEntries r)"
    using assms by (simp add: set_kernelEntries)
  then have ne: "kernelEntries r \<noteq> []" by auto
  have "0 < sum_list (map (\<lambda>e. snd (snd e)) (kernelEntries r))"
    by (rule sum_list_pos_weights[OF _ ne]) (auto simp: set_kernelEntries kernelWeight_pos)
  then show ?thesis
    by (simp add: kernelTotal_def case_prod_unfold)
qed

lemma length_diskOffsets_le:
  assumes "1 \<le> r" "r \<le> 5"
  shows "length (diskOffsets r) \<le> 81"
proof -
  from assms have "r = 1 \<or> r = 2 \<or> r = 3 \<or> r = 4 \<or> r = 5" by arith
  moreover have "length (diskOffsets 1) \<le> 81" "length (diskOffsets 2) \<le> 81"
    "length (diskOffsets 3) \<le> 81" "length (diskOffsets 4) \<le> 81"
    "length (diskOffsets 5) \<le> 81"
    unfolding diskOffsets_def by code_simp+
  ultimately show ?thesis by auto
qed

lemma rebuildGaussKernel_small:
  assumes "1 \<le> r" "r \<le> 5"
  shows "rebuildGaussKernel r =
     Some (map (\<lambda>(sx, sy, w). (sx, sy, w * (1 / kernelTotal r))) (kernelEntries r))"
proof -
  have "length (kernelEntries r) = length (kernelOffsets (kernelEntries r))"
    by (simp add: kernelOffsets_def)
  then have "length (kernelEntries r) \<le> 81"
    using length_diskOffsets_le[OF assms] by (simp add: kernelOffsets_entries)
  then show ?thesis
    using assms by (simp add: rebuildGaussKernel_def MAX_KERNEL_def Let_def)
qed

text \<open>
  C6, as the code has it. For a spread radius from 1 to 5 the kernel holds each integer
  offset of the disk \<open>sx\<^sup>2 + sy\<^sup>2 \<le> r\<^sup>2\<close> once and no other offset, each weight is
  \<open>exp (- (sx\<^sup>2 + sy\<^sup>2) / (2 \<sigma>\<^sup>2))\<close> with \<open>\<sigma> = 0.75 r\<close> divided by the sum of these
  over the disk, and the weights sum to 1 (in exact arithmetic), so within 1e-4 of 1.
\<close>

theorem kernel_disk_normalized:
  assumes "1 \<le> r" "r \<le> 5"
  shows "\<exists>k. rebuildGaussKernel r = Some k
     \<and> distinct (kernelOffsets k)
     \<and> set (kernelOffsets k) = {(sx, sy). sx * sx + sy * sy \<le> r * r}
     \<and> 0 < kernelTotal r
     \<and> (\<forall>(sx, sy, w) \<in> set k.
          w = exp (- real_of_int (sx * sx + sy * sy) / (2 * (0.75 * real_of_int r)\<^sup>2))
                / kernelTotal r)
     \<and> sum_list (kernelWeights k) = 1
     \<and> \<bar>sum_list (kernelWeights k) - 1\<bar> \<le> 1 / 10000"
proof -
  let ?k = "map (\<lambda>(sx, sy, w). (sx, sy, w * (1 / kernelTotal r))) (kernelEntries r)"
  have r0: "0 \<le> r" using assms by simp
  have off: "kernelOffsets ?k = diskOffsets r"
    using kernelOffsets_entries[of r]
    by (simp add: kernelOffsets_def case_prod_unfold comp_def)
  have w: "kernelWeights ?k = map (\<lambda>e. snd (snd e) * (1 / kernelTotal r)) (kernelEntries r)"
    by (simp add: kernelWeights_def case_prod_unfold comp_def)
  have "sum_list (kernelWeights ?k) = kernelTotal r * (1 / kernelTotal r)"
    unfolding w sum_list_mult_const by (simp only: kernelTotal_def case_prod_unfold)
  then have s: "sum_list (kernelWeights ?k) = 1"
    using kernelTotal_pos[OF r0] by simp
  have each: "\<forall>(sx, sy, w) \<in> set ?k.
          w = exp (- real_of_int (sx * sx + sy * sy) / (2 * (0.75 * real_of_int r)\<^sup>2))
                / kernelTotal r"
    by (auto simp: set_kernelEntries kernelWeight_formula)
  show ?thesis
    using rebuildGaussKernel_small[OF assms] off distinct_diskOffsets set_diskOffsets[OF r0]
      kernelTotal_pos[OF r0] each s
    by simp
qed

theorem kernel_disk_normalized_witness:
  "\<exists>k. rebuildGaussKernel 2 = Some k
     \<and> distinct (kernelOffsets k)
     \<and> set (kernelOffsets k) = {(sx, sy). sx * sx + sy * sy \<le> 4}
     \<and> sum_list (kernelWeights k) = 1"
  using kernel_disk_normalized[of 2] by auto

text \<open>
  The claim fails for other radii. The buffers hold 81 entries, and the disk of radius 6
  has more: the offset \<open>(0, 6)\<close> lies in the disk and not in the kernel. At radius 0 the
  only weight is \<open>NaN\<close>.
\<close>

theorem kernel_radius_counterexample:
  "(0, 6) \<notin> set (kernelOffsets (the (rebuildGaussKernel 6)))
   \<and> (0::int) * 0 + 6 * 6 \<le> 6 * 6
   \<and> length (the (rebuildGaussKernel 6)) = 81
   \<and> rebuildGaussKernel 0 = None"
proof -
  have "kernelOffsets (the (rebuildGaussKernel 6)) = take 81 (diskOffsets 6)"
    using kernelOffsets_entries[of 6]
    by (simp add: rebuildGaussKernel_def Let_def MAX_KERNEL_def kernelOffsets_def
        take_map[symmetric] case_prod_unfold comp_def)
  moreover have "(0, 6) \<notin> set (take 81 (diskOffsets 6))"
    unfolding diskOffsets_def by code_simp
  moreover have "length (take 81 (diskOffsets 6)) = 81"
    unfolding diskOffsets_def by code_simp
  moreover have "length (the (rebuildGaussKernel 6)) = length (kernelOffsets (the (rebuildGaussKernel 6)))"
    by (simp add: kernelOffsets_def)
  ultimately show ?thesis
    by (simp add: rebuildGaussKernel_def)
qed

section \<open>Pass 1, cell by cell\<close>


lemma set_carveCells:
  "set (carveCells w h r ix iy) =
     {(dx, dy). - r \<le> dx \<and> dx \<le> r \<and> - r \<le> dy \<and> dy \<le> r
        \<and> 0 \<le> ix + dx \<and> ix + dx < w \<and> 0 \<le> iy + dy \<and> iy + dy < h}"
  unfolding carveCells_def by (auto split: if_splits)

lemma distinct_carveCells: "distinct (carveCells w h r ix iy)"
  unfolding carveCells_def
proof (rule distinct_concat_map)
  show "distinct [- r..r]" by simp
next
  fix dy
  show "distinct (if iy + dy < 0 \<or> h \<le> iy + dy then []
      else concat (map (\<lambda>dx. if ix + dx < 0 \<or> w \<le> ix + dx then [] else [(dx, dy)]) [- r..r]))"
    by (auto intro!: distinct_concat_map split: if_splits)
next
  fix dy dy' :: int
  assume "dy \<noteq> dy'"
  then show "set (if iy + dy < 0 \<or> h \<le> iy + dy then []
      else concat (map (\<lambda>dx. if ix + dx < 0 \<or> w \<le> ix + dx then [] else [(dx, dy)]) [- r..r]))
    \<inter> set (if iy + dy' < 0 \<or> h \<le> iy + dy' then []
      else concat (map (\<lambda>dx. if ix + dx < 0 \<or> w \<le> ix + dx then [] else [(dx, dy')]) [- r..r])) = {}"
    by (auto split: if_splits)
qed

lemma cell_index_inj:
  fixes w :: int
  assumes "0 \<le> a" "a < w" "0 \<le> a'" "a' < w" "b * w + a = b' * w + a'"
  shows "a = a' \<and> b = b'"
proof -
  have "a = (b * w + a) mod w"
    using assms(1,2) by simp
  also have "\<dots> = (b' * w + a') mod w"
    by (simp only: assms(5))
  also have "\<dots> = a'"
    using assms(3,4) by simp
  finally have "a = a'" .
  moreover have "w \<noteq> 0" using assms by auto
  ultimately show ?thesis using assms(5) by simp
qed

lemma cell_index_bound:
  fixes w :: int
  assumes "0 \<le> a" "a < w" "0 \<le> b" "b < h"
  shows "0 \<le> b * w + a" "b * w + a < w * h"
proof -
  show "0 \<le> b * w + a" using assms by simp
  have "b * w + a < b * w + w" using assms by simp
  also have "\<dots> = (b + 1) * w" by (simp add: algebra_simps)
  also have "\<dots> \<le> h * w"
    using assms by (intro mult_right_mono) auto
  finally show "b * w + a < w * h" by (simp add: mult.commute)
qed

lemma recordDisp_height:
  "sandHeight (fst (recordDisp idx c n sd)) =
     (sandHeight (fst sd))[idx := (case n of Num v \<Rightarrow> if c > v then v else sandHeight (fst sd) ! idx
                                   | _ \<Rightarrow> sandHeight (fst sd) ! idx)]"
  by (cases n) (simp_all add: recordDisp_def Let_def)

lemma recordDisp_colours:
  "sandR (fst (recordDisp idx c n sd)) = sandR (fst sd)"
  "sandG (fst (recordDisp idx c n sd)) = sandG (fst sd)"
  "sandB (fst (recordDisp idx c n sd)) = sandB (fst sd)"
  by (cases n; simp add: recordDisp_def Let_def)+

lemma pass1Cell_height:
  "sandHeight (fst (pass1Cell b t idx sd)) =
     (sandHeight (fst sd))[idx := pass1Height (diggingMode (fst sd)) b t (sandHeight (fst sd) ! idx)]"
  unfolding pass1Cell_def pass1Height_def Let_def
  by (cases t) (simp_all add: recordDisp_height split: jsnum.splits)

lemma ex_update_id: "\<exists>v. xs = xs[i := v]"
  by (rule exI[of _ "xs ! i"]) simp

lemma pass1Cell_colours:
  "\<exists>v. sandR (fst (pass1Cell b t idx sd)) = (sandR (fst sd))[idx := v]"
  "\<exists>v. sandG (fst (pass1Cell b t idx sd)) = (sandG (fst sd))[idx := v]"
  "\<exists>v. sandB (fst (pass1Cell b t idx sd)) = (sandB (fst sd))[idx := v]"
  unfolding pass1Cell_def Let_def
  by (auto simp: recordDisp_colours ex_update_id)

lemma pass1Cell_normal_colours:
  "\<not> diggingMode (fst sd) \<Longrightarrow> sandR (fst (pass1Cell b t idx sd)) = sandR (fst sd)
     \<and> sandG (fst (pass1Cell b t idx sd)) = sandG (fst sd)
     \<and> sandB (fst (pass1Cell b t idx sd)) = sandB (fst sd)"
  unfolding pass1Cell_def Let_def
  by (simp add: recordDisp_colours)

lemma pass1Cell_other:
  assumes "i \<noteq> idx"
  shows "sandHeight (fst (pass1Cell b t idx sd)) ! i = sandHeight (fst sd) ! i"
    "sandR (fst (pass1Cell b t idx sd)) ! i = sandR (fst sd) ! i"
    "sandG (fst (pass1Cell b t idx sd)) ! i = sandG (fst sd) ! i"
    "sandB (fst (pass1Cell b t idx sd)) ! i = sandB (fst sd) ! i"
proof -
  show "sandHeight (fst (pass1Cell b t idx sd)) ! i = sandHeight (fst sd) ! i"
    using assms by (simp add: pass1Cell_height)
  show "sandR (fst (pass1Cell b t idx sd)) ! i = sandR (fst sd) ! i"
    using assms pass1Cell_colours(1)[of b t idx sd] by auto
  show "sandG (fst (pass1Cell b t idx sd)) ! i = sandG (fst sd) ! i"
    using assms pass1Cell_colours(2)[of b t idx sd] by auto
  show "sandB (fst (pass1Cell b t idx sd)) ! i = sandB (fst sd) ! i"
    using assms pass1Cell_colours(3)[of b t idx sd] by auto
qed


lemma pass1Cell_colour:
  "sandR (fst (pass1Cell b t idx sd)) =
     (sandR (fst sd))[idx := fst (pass1Colour (diggingMode (fst sd)) b t (sandHeight (fst sd) ! idx)
        (sandR (fst sd) ! idx, sandG (fst sd) ! idx, sandB (fst sd) ! idx))]"
  "sandG (fst (pass1Cell b t idx sd)) =
     (sandG (fst sd))[idx := fst (snd (pass1Colour (diggingMode (fst sd)) b t (sandHeight (fst sd) ! idx)
        (sandR (fst sd) ! idx, sandG (fst sd) ! idx, sandB (fst sd) ! idx)))]"
  "sandB (fst (pass1Cell b t idx sd)) =
     (sandB (fst sd))[idx := snd (snd (pass1Colour (diggingMode (fst sd)) b t (sandHeight (fst sd) ! idx)
        (sandR (fst sd) ! idx, sandG (fst sd) ! idx, sandB (fst sd) ! idx)))]"
  unfolding pass1Cell_def pass1Colour_def Let_def
  by (simp_all add: recordDisp_colours)

text \<open>The loop of pass 1 over any list of cells.\<close>


lemma pass1_fold_frame:
  "sameFrame (fst sd) (fst (fold (\<lambda>c. pass1Cell b (tg c) (key c)) cs sd))"
  by (rule sameFrame_fold_pair) (rule sameFrame_pass1Cell)

lemma pass1_fold_other:
  assumes "i \<notin> key ` set cs"
  shows "sandHeight (fst (fold (\<lambda>c. pass1Cell b (tg c) (key c)) cs sd)) ! i = sandHeight (fst sd) ! i
    \<and> sandR (fst (fold (\<lambda>c. pass1Cell b (tg c) (key c)) cs sd)) ! i = sandR (fst sd) ! i
    \<and> sandG (fst (fold (\<lambda>c. pass1Cell b (tg c) (key c)) cs sd)) ! i = sandG (fst sd) ! i
    \<and> sandB (fst (fold (\<lambda>c. pass1Cell b (tg c) (key c)) cs sd)) ! i = sandB (fst sd) ! i"
  using assms
proof (induction cs arbitrary: sd)
  case Nil
  show ?case by simp
next
  case (Cons c cs)
  then have "i \<noteq> key c" "i \<notin> key ` set cs" by auto
  then show ?case
    using Cons.IH[of "pass1Cell b (tg c) (key c) sd"] pass1Cell_other[of i "key c" b "tg c" sd]
    by simp
qed

lemma pass1_fold_height:
  assumes "distinct (map key cs)" "c \<in> set cs" "key c < length (sandHeight (fst sd))"
  shows "sandHeight (fst (fold (\<lambda>c. pass1Cell b (tg c) (key c)) cs sd)) ! key c =
     pass1Height (diggingMode (fst sd)) b (tg c) (sandHeight (fst sd) ! key c)"
  using assms
proof (induction cs arbitrary: sd)
  case Nil
  then show ?case by simp
next
  case (Cons c0 cs)
  let ?sd = "pass1Cell b (tg c0) (key c0) sd"
  have fr: "sameFrame (fst sd) (fst ?sd)" by (rule sameFrame_pass1Cell)
  show ?case
  proof (cases "c \<in> set cs")
    case True
    then have ne: "key c \<noteq> key c0" using Cons.prems(1) by (auto simp: image_iff)
    have "sandHeight (fst (fold (\<lambda>c. pass1Cell b (tg c) (key c)) cs ?sd)) ! key c =
       pass1Height (diggingMode (fst ?sd)) b (tg c) (sandHeight (fst ?sd) ! key c)"
      using Cons.prems True fr by (intro Cons.IH) (auto simp: sameFrame_def)
    then show ?thesis
      using fr pass1Cell_other(1)[OF ne, of b "tg c0" sd] by (simp add: sameFrame_def)
  next
    case False
    then have c: "c = c0" using Cons.prems(2) by simp
    have "key c0 \<notin> key ` set cs" using Cons.prems(1) by auto
    then have "sandHeight (fst (fold (\<lambda>c. pass1Cell b (tg c) (key c)) cs ?sd)) ! key c0 =
       sandHeight (fst ?sd) ! key c0"
      using pass1_fold_other[of "key c0" key cs b tg ?sd] by simp
    then show ?thesis
      using Cons.prems(3) by (simp add: c pass1Cell_height)
  qed
qed


lemma pass1_fold_colour:
  assumes "distinct (map key cs)" "c \<in> set cs"
  shows "sandR (fst (fold (\<lambda>c. pass1Cell b (tg c) (key c)) cs sd)) =
           (sandR (fst (fold (\<lambda>c. pass1Cell b (tg c) (key c)) cs sd)))[key c :=
             fst (pass1Colour (diggingMode (fst sd)) b (tg c) (sandHeight (fst sd) ! key c)
               (sandR (fst sd) ! key c, sandG (fst sd) ! key c, sandB (fst sd) ! key c))]
     \<and> sandG (fst (fold (\<lambda>c. pass1Cell b (tg c) (key c)) cs sd)) =
           (sandG (fst (fold (\<lambda>c. pass1Cell b (tg c) (key c)) cs sd)))[key c :=
             fst (snd (pass1Colour (diggingMode (fst sd)) b (tg c) (sandHeight (fst sd) ! key c)
               (sandR (fst sd) ! key c, sandG (fst sd) ! key c, sandB (fst sd) ! key c)))]
     \<and> sandB (fst (fold (\<lambda>c. pass1Cell b (tg c) (key c)) cs sd)) =
           (sandB (fst (fold (\<lambda>c. pass1Cell b (tg c) (key c)) cs sd)))[key c :=
             snd (snd (pass1Colour (diggingMode (fst sd)) b (tg c) (sandHeight (fst sd) ! key c)
               (sandR (fst sd) ! key c, sandG (fst sd) ! key c, sandB (fst sd) ! key c)))]"
  using assms
proof (induction cs arbitrary: sd)
  case Nil
  then show ?case by simp
next
  case (Cons c0 cs)
  let ?sd = "pass1Cell b (tg c0) (key c0) sd"
  have fr: "sameFrame (fst sd) (fst ?sd)" by (rule sameFrame_pass1Cell)
  show ?case
  proof (cases "c \<in> set cs")
    case True
    then have ne: "key c \<noteq> key c0" using Cons.prems(1) by (auto simp: image_iff)
    have d: "distinct (map key cs)" using Cons.prems(1) by simp
    show ?thesis
      using Cons.IH[OF d True, of ?sd] fr pass1Cell_other[OF ne, of b "tg c0" sd]
      by (simp add: sameFrame_def)
  next
    case False
    then have c: "c = c0" using Cons.prems(2) by simp
    have nk: "key c0 \<notin> key ` set cs" using Cons.prems(1) by auto
    have eqs: "sandR (fst (fold (\<lambda>c. pass1Cell b (tg c) (key c)) cs ?sd)) ! key c0 = sandR (fst ?sd) ! key c0"
      "sandG (fst (fold (\<lambda>c. pass1Cell b (tg c) (key c)) cs ?sd)) ! key c0 = sandG (fst ?sd) ! key c0"
      "sandB (fst (fold (\<lambda>c. pass1Cell b (tg c) (key c)) cs ?sd)) ! key c0 = sandB (fst ?sd) ! key c0"
      using pass1_fold_other[OF nk, of b tg ?sd] by simp_all
    have lens: "length (sandR (fst (fold (\<lambda>c. pass1Cell b (tg c) (key c)) cs ?sd))) = length (sandR (fst sd))"
      "length (sandG (fst (fold (\<lambda>c. pass1Cell b (tg c) (key c)) cs ?sd))) = length (sandG (fst sd))"
      "length (sandB (fst (fold (\<lambda>c. pass1Cell b (tg c) (key c)) cs ?sd))) = length (sandB (fst sd))"
      using pass1_fold_frame[of ?sd b tg key cs] fr by (simp_all add: sameFrame_def)
    have upd: "xs = xs[k := v]" if "k < length xs \<longrightarrow> xs ! k = v" for xs :: "jsnum list" and k v
    proof (cases "k < length xs")
      case True
      with that have "v = xs ! k" by simp
      then show ?thesis by (simp only: list_update_id)
    next
      case False
      then show ?thesis by (simp add: list_update_beyond)
    qed
    show ?thesis
      unfolding c fold_Cons comp_def
      by (intro conjI upd impI; simp only: eqs; simp add: pass1Cell_colour lens)
  qed
qed

text \<open>The table of the profile, entry by entry.\<close>

lemma fold_update_nth:
  assumes "distinct (map key cs)" "c \<in> set cs" "key c < length t"
  shows "fold (\<lambda>c t. t[key c := val c]) cs t ! key c = val c"
  using assms
proof (induction cs arbitrary: t)
  case Nil
  then show ?case by simp
next
  case (Cons c0 cs)
  show ?case
  proof (cases "c \<in> set cs")
    case True
    then show ?thesis using Cons by simp
  next
    case False
    then have c: "c = c0" using Cons.prems(2) by simp
    have nk: "key c0 \<notin> key ` set cs" using Cons.prems(1) by auto
    have "fold (\<lambda>c t. t[key c := val c]) cs u ! key c0 = u ! key c0" for u
      using nk by (induction cs arbitrary: u) auto
    then show ?thesis using Cons.prems(3) by (simp add: c)
  qed
qed

lemma length_fold_update_key [simp]: "length (fold (\<lambda>c t. t[key c := val c]) cs t) = length t"
  by (induction cs arbitrary: t) simp_all

lemma set_profileOffsets:
  "set (profileOffsets r) = {(dx, dy). - r \<le> dx \<and> dx \<le> r \<and> - r \<le> dy \<and> dy \<le> r}"
  unfolding profileOffsets_def by auto

lemma distinct_profileOffsets: "distinct (profileOffsets r)"
  unfolding profileOffsets_def
  by (rule distinct_concat_map) (auto simp: distinct_map inj_on_def)

lemma profile_key_inj:
  "inj_on (\<lambda>c. nat ((snd c + r) * (2 * r + 1) + (fst c + r))) (set (profileOffsets r))"
proof (rule inj_onI)
  fix c c' :: "int \<times> int"
  assume c: "c \<in> set (profileOffsets r)" and c': "c' \<in> set (profileOffsets r)"
    and eq: "nat ((snd c + r) * (2 * r + 1) + (fst c + r)) = nat ((snd c' + r) * (2 * r + 1) + (fst c' + r))"
  have b: "0 \<le> fst c + r" "fst c + r < 2 * r + 1" "0 \<le> snd c + r"
    "0 \<le> fst c' + r" "fst c' + r < 2 * r + 1" "0 \<le> snd c' + r"
    using c c' by (auto simp: set_profileOffsets)
  then have "0 \<le> (snd c + r) * (2 * r + 1) + (fst c + r)" "0 \<le> (snd c' + r) * (2 * r + 1) + (fst c' + r)"
    by simp_all
  with eq have "(snd c + r) * (2 * r + 1) + (fst c + r) = (snd c' + r) * (2 * r + 1) + (fst c' + r)"
    by linarith
  from cell_index_inj[OF b(1,2,4,5) this] show "c = c'"
    by (simp add: prod_eq_iff)
qed

lemma tineProfileTable_length [simp]:
  "length (tineProfileTable r d m) = nat ((2 * r + 1) * (2 * r + 1))"
  by (simp add: tineProfileTable_def Let_def case_prod_unfold)

lemma tineProfileTable_neg:
  "r < 0 \<Longrightarrow> tineProfileTable r d m = replicate (nat ((2 * r + 1) * (2 * r + 1))) (Num 0)"
  by (simp add: tineProfileTable_def profileOffsets_def Let_def)

lemma tineProfileTable_lookup:
  assumes "- r \<le> dx" "dx \<le> r" "- r \<le> dy" "dy \<le> r"
  shows "profileAt (tineProfileTable r d m) ((dy + r) * (2 * r + 1) + r + dx)
           = profileEntry r d m dx dy"
proof -
  let ?key = "\<lambda>c. nat ((snd c + r) * (2 * r + 1) + (fst c + r))"
  let ?val = "\<lambda>c. profileEntry r d m (fst c) (snd c)"
  let ?t0 = "replicate (nat ((2 * r + 1) * (2 * r + 1))) (Num 0)"
  have mem: "(dx, dy) \<in> set (profileOffsets r)"
    using assms by (simp add: set_profileOffsets)
  have dist: "distinct (map ?key (profileOffsets r))"
    by (simp add: distinct_map distinct_profileOffsets profile_key_inj)
  have b: "0 \<le> dx + r" "dx + r < 2 * r + 1" "0 \<le> dy + r" "dy + r < 2 * r + 1"
    using assms by auto
  from cell_index_bound[OF b]
  have rng: "0 \<le> (dy + r) * (2 * r + 1) + (dx + r)"
    "(dy + r) * (2 * r + 1) + (dx + r) < (2 * r + 1) * (2 * r + 1)"
    by simp_all
  then have lt: "?key (dx, dy) < length ?t0" by simp
  have tab: "tineProfileTable r d m = fold (\<lambda>c t. t[?key c := ?val c]) (profileOffsets r) ?t0"
    by (simp add: tineProfileTable_def Let_def case_prod_unfold)
  have nth: "fold (\<lambda>c t. t[?key c := ?val c]) (profileOffsets r) ?t0 ! ?key (dx, dy) = ?val (dx, dy)"
    by (rule fold_update_nth[OF dist mem lt])
  have idx: "(dy + r) * (2 * r + 1) + r + dx = (dy + r) * (2 * r + 1) + (dx + r)"
    by simp
  have len: "length (fold (\<lambda>c t. t[?key c := ?val c]) (profileOffsets r) ?t0) = length ?t0"
    by (rule length_fold_update_key)
  have "profileAt (fold (\<lambda>c t. t[?key c := ?val c]) (profileOffsets r) ?t0)
           ((dy + r) * (2 * r + 1) + (dx + r)) = ?val (dx, dy)"
    unfolding profileAt_def len using rng(1) lt nth by (simp only: if_True fst_conv snd_conv simp_thms)
  then show ?thesis
    unfolding tab idx by (simp only: fst_conv snd_conv)
qed

text \<open>Pass 1 as a loop over keyed cells, for any table and for the table of the key.\<close>

lemma carvePass1_keyed:
  "carvePass1 tab r ix iy s =
     fold (\<lambda>c. pass1Cell (blend (cached s))
                 (profileAt tab ((snd c + r) * tineProfileStride s + r + fst c))
                 (nat ((iy + snd c) * W s + (ix + fst c))))
       (carveCells (W s) (H s) r ix iy) (s, [])"
  unfolding carvePass1_def Let_def by (simp add: case_prod_unfold)



lemma cell_key_inj:
  "inj_on (\<lambda>c. nat ((iy + snd c) * w + (ix + fst c))) (set (carveCells w h r ix iy))"
proof (rule inj_onI)
  fix c c' :: "int \<times> int"
  assume c: "c \<in> set (carveCells w h r ix iy)" and c': "c' \<in> set (carveCells w h r ix iy)"
    and eq: "nat ((iy + snd c) * w + (ix + fst c)) = nat ((iy + snd c') * w + (ix + fst c'))"
  have b: "0 \<le> ix + fst c" "ix + fst c < w" "0 \<le> iy + snd c"
    "0 \<le> ix + fst c'" "ix + fst c' < w" "0 \<le> iy + snd c'"
    using c c' by (auto simp: set_carveCells)
  then have "0 \<le> (iy + snd c) * w + (ix + fst c)" "0 \<le> (iy + snd c') * w + (ix + fst c')"
    by simp_all
  with eq have "(iy + snd c) * w + (ix + fst c) = (iy + snd c') * w + (ix + fst c')"
    by linarith
  from cell_index_inj[OF b(1,2,4,5) this] show "c = c'"
    by (simp add: prod_eq_iff)
qed


lemma carved_key_iff:
  assumes g: "inGrid s px py"
  shows "nat (py * W s + px) \<in> (\<lambda>c. nat ((iy + snd c) * W s + (ix + fst c))) ` set (carveCells (W s) (H s) r ix iy)
     \<longleftrightarrow> (- r \<le> px - ix \<and> px - ix \<le> r \<and> - r \<le> py - iy \<and> py - iy \<le> r)"
proof
  let ?key = "\<lambda>c. nat ((iy + snd c) * W s + (ix + fst c))"
  have gb: "0 \<le> px" "px < W s" "0 \<le> py" "py < H s"
    using g by (auto simp: inGrid_def)
  {
    assume "nat (py * W s + px) \<in> ?key ` set (carveCells (W s) (H s) r ix iy)"
    then obtain c where c: "c \<in> set (carveCells (W s) (H s) r ix iy)" and eq: "nat (py * W s + px) = ?key c"
      by auto
    have b: "0 \<le> ix + fst c" "ix + fst c < W s" "0 \<le> iy + snd c"
      "- r \<le> fst c" "fst c \<le> r" "- r \<le> snd c" "snd c \<le> r"
      using c by (auto simp: set_carveCells)
    have "0 \<le> (iy + snd c) * W s + (ix + fst c)" "0 \<le> py * W s + px"
      using b gb by simp_all
    with eq have "py * W s + px = (iy + snd c) * W s + (ix + fst c)"
      by linarith
    from cell_index_inj[OF gb(1,2) b(1,2) this] have "px - ix = fst c" "py - iy = snd c"
      by simp_all
    with b show "- r \<le> px - ix \<and> px - ix \<le> r \<and> - r \<le> py - iy \<and> py - iy \<le> r" by simp
  }
  {
    assume "- r \<le> px - ix \<and> px - ix \<le> r \<and> - r \<le> py - iy \<and> py - iy \<le> r"
    then have "(px - ix, py - iy) \<in> set (carveCells (W s) (H s) r ix iy)"
      using gb by (simp add: set_carveCells)
    then have "?key (px - ix, py - iy) \<in> ?key ` set (carveCells (W s) (H s) r ix iy)"
      by (rule imageI)
    then show "nat (py * W s + px) \<in> ?key ` set (carveCells (W s) (H s) r ix iy)"
      by simp
  }
qed

lemma carvePass1_outside:
  assumes g: "inGrid s px py"
    and out: "\<not> (- r \<le> px - ix \<and> px - ix \<le> r \<and> - r \<le> py - iy \<and> py - iy \<le> r)"
  shows "sandHeight (fst (carvePass1 tab r ix iy s)) ! nat (py * W s + px) = sandHeight s ! nat (py * W s + px)"
    "sandR (fst (carvePass1 tab r ix iy s)) ! nat (py * W s + px) = sandR s ! nat (py * W s + px)"
    "sandG (fst (carvePass1 tab r ix iy s)) ! nat (py * W s + px) = sandG s ! nat (py * W s + px)"
    "sandB (fst (carvePass1 tab r ix iy s)) ! nat (py * W s + px) = sandB s ! nat (py * W s + px)"
  using pass1_fold_other[where sd = "(s, [])" and i = "nat (py * W s + px)"
      and key = "\<lambda>c. nat ((iy + snd c) * W s + (ix + fst c))"
      and cs = "carveCells (W s) (H s) r ix iy" and b = "blend (cached s)"
      and tg = "\<lambda>c. profileAt tab ((snd c + r) * tineProfileStride s + r + fst c)"]
    out carved_key_iff[OF g, of iy ix r]
  by (simp_all add: carvePass1_keyed)

lemma carvePass1_inside:
  assumes wf: "wfGrid s" and g: "inGrid s px py"
    and box: "- r \<le> px - ix \<and> px - ix \<le> r \<and> - r \<le> py - iy \<and> py - iy \<le> r"
  shows "sandHeight (fst (carvePass1 tab r ix iy s)) ! nat (py * W s + px) =
       pass1Height (diggingMode s) (blend (cached s))
         (profileAt tab ((py - iy + r) * tineProfileStride s + r + (px - ix)))
         (sandHeight s ! nat (py * W s + px))"
    "(sandR (fst (carvePass1 tab r ix iy s)) ! nat (py * W s + px),
      sandG (fst (carvePass1 tab r ix iy s)) ! nat (py * W s + px),
      sandB (fst (carvePass1 tab r ix iy s)) ! nat (py * W s + px)) =
       pass1Colour (diggingMode s) (blend (cached s))
         (profileAt tab ((py - iy + r) * tineProfileStride s + r + (px - ix)))
         (sandHeight s ! nat (py * W s + px))
         (sandR s ! nat (py * W s + px), sandG s ! nat (py * W s + px),
          sandB s ! nat (py * W s + px))"
proof -
  let ?key = "\<lambda>c. nat ((iy + snd c) * W s + (ix + fst c))"
  let ?tg = "\<lambda>c. profileAt tab ((snd c + r) * tineProfileStride s + r + fst c)"
  let ?cs = "carveCells (W s) (H s) r ix iy"
  let ?i = "nat (py * W s + px)"
  let ?f = "fst (fold (\<lambda>c. pass1Cell (blend (cached s)) (?tg c) (?key c)) ?cs (s, []))"
  have gb: "0 \<le> px" "px < W s" "0 \<le> py" "py < H s"
    using g by (auto simp: inGrid_def)
  have lt: "?i < totalPixels s"
    using cell_index_bound[OF gb] wf by (simp add: wfGrid_def)
  have lens: "length (sandHeight s) = totalPixels s" "length (sandR s) = totalPixels s"
    "length (sandG s) = totalPixels s" "length (sandB s) = totalPixels s"
    using wf by (simp_all add: wfGrid_def)
  have dist: "distinct (map ?key ?cs)"
    by (simp add: distinct_map distinct_carveCells cell_key_inj)
  have mem: "(px - ix, py - iy) \<in> set ?cs"
    using gb box by (simp add: set_carveCells)
  have k: "?key (px - ix, py - iy) = ?i" by simp
  have t: "?tg (px - ix, py - iy) = profileAt tab ((py - iy + r) * tineProfileStride s + r + (px - ix))"
    by simp
  have fr: "sameFrame s ?f"
    using pass1_fold_frame[of "(s, [])" "blend (cached s)" ?tg ?key ?cs] by simp
  show "sandHeight (fst (carvePass1 tab r ix iy s)) ! ?i =
       pass1Height (diggingMode s) (blend (cached s))
         (profileAt tab ((py - iy + r) * tineProfileStride s + r + (px - ix)))
         (sandHeight s ! ?i)"
    using pass1_fold_height[where key = ?key and cs = ?cs and c = "(px - ix, py - iy)"
        and sd = "(s, [])" and b = "blend (cached s)" and tg = ?tg, OF dist mem] lt lens
    unfolding k t by (simp add: carvePass1_keyed)
  have col: "sandR ?f = (sandR ?f)[?i := fst (pass1Colour (diggingMode s) (blend (cached s))
        (profileAt tab ((py - iy + r) * tineProfileStride s + r + (px - ix))) (sandHeight s ! ?i)
        (sandR s ! ?i, sandG s ! ?i, sandB s ! ?i))]"
    "sandG ?f = (sandG ?f)[?i := fst (snd (pass1Colour (diggingMode s) (blend (cached s))
        (profileAt tab ((py - iy + r) * tineProfileStride s + r + (px - ix))) (sandHeight s ! ?i)
        (sandR s ! ?i, sandG s ! ?i, sandB s ! ?i)))]"
    "sandB ?f = (sandB ?f)[?i := snd (snd (pass1Colour (diggingMode s) (blend (cached s))
        (profileAt tab ((py - iy + r) * tineProfileStride s + r + (px - ix))) (sandHeight s ! ?i)
        (sandR s ! ?i, sandG s ! ?i, sandB s ! ?i)))]"
    using pass1_fold_colour[where key = ?key and cs = ?cs and c = "(px - ix, py - iy)"
        and sd = "(s, [])" and b = "blend (cached s)" and tg = ?tg, OF dist mem]
    unfolding k t by simp_all
  have ll: "?i < length (sandR ?f)" "?i < length (sandG ?f)" "?i < length (sandB ?f)"
    using fr lt lens by (simp_all add: sameFrame_def)
  have nth: "xs ! k = v" if "xs = xs[k := v]" "k < length xs" for xs :: "jsnum list" and k v
    using that by (metis nth_list_update_eq)
  show "(sandR (fst (carvePass1 tab r ix iy s)) ! ?i,
      sandG (fst (carvePass1 tab r ix iy s)) ! ?i,
      sandB (fst (carvePass1 tab r ix iy s)) ! ?i) =
       pass1Colour (diggingMode s) (blend (cached s))
         (profileAt tab ((py - iy + r) * tineProfileStride s + r + (px - ix)))
         (sandHeight s ! ?i)
         (sandR s ! ?i, sandG s ! ?i, sandB s ! ?i)"
    unfolding carvePass1_keyed
    using nth[OF col(1) ll(1)] nth[OF col(2) ll(2)] nth[OF col(3) ll(3)]
    by (simp add: prod_eq_iff)
qed


lemma dig_height_formula:
  assumes "0.1 \<le> h" "h \<le> 2" "0 \<le> b" "0 \<le> t" "t < 1"
  shows "pass1Height True b (Num t) h =
     max 0.1 (h - (1 - t) * b / (1 + 3 * max 0 (min 1 ((2 - h) / 1.9))))"
proof -
  define hard where "hard = 1.0 + (2.0 - h) / 1.9 * 3.0"
  define ra where "ra = (1.0 - t) * b / hard"
  have df: "0 \<le> (2 - h) / 1.9" "(2 - h) / 1.9 \<le> 1"
    using assms by simp_all
  then have cl: "max 0 (min 1 ((2 - h) / 1.9)) = (2 - h) / 1.9"
    by simp
  have "0 \<le> (2 - h) / 1.9 * 3"
    using df(1) by (rule mult_nonneg_nonneg) simp
  moreover have "hard = 1 + (2 - h) / 1.9 * 3"
    unfolding hard_def by simp
  ultimately have hd: "hard > 0"
    by linarith
  have ra: "0 \<le> ra"
    unfolding ra_def using assms hd by simp
  have rhs: "(1 - t) * b / (1 + 3 * ((2 - h) / 1.9)) = ra"
    unfolding ra_def hard_def by (simp add: mult.commute)
  have "digNewH b h (Num t) = (if js_lt (js_rsub h (js_div ((1.0 - t) * b) hard)) 0.1 then Num 0.1
      else js_rsub h (js_div ((1.0 - t) * b) hard))"
    unfolding digNewH_def Let_def hard_def by simp
  also have "js_div ((1.0 - t) * b) hard = Num ra"
    using hd by (simp add: js_div_def ra_def)
  finally have dn: "digNewH b h (Num t) = Num (if h - ra < 0.1 then 0.1 else h - ra)"
    by simp
  have "pass1Height True b (Num t) h =
      (if h > (if h - ra < 0.1 then 0.1 else h - ra) then (if h - ra < 0.1 then 0.1 else h - ra) else h)"
    unfolding pass1Height_def dn using assms by simp
  also have "\<dots> = max 0.1 (h - ra)"
    using ra assms(1) by (auto simp: max_def)
  finally show ?thesis
    unfolding cl rhs .
qed

lemma pass1Height_le: "pass1Height dig b t h \<le> h"
  unfolding pass1Height_def by (auto split: jsnum.splits)

lemma pass1_fold_le:
  assumes "i < length (sandHeight (fst sd))"
  shows "sandHeight (fst (fold (\<lambda>c. pass1Cell b (tg c) (key c)) cs sd)) ! i \<le> sandHeight (fst sd) ! i"
  using assms
proof (induction cs arbitrary: sd)
  case Nil
  show ?case by simp
next
  case (Cons c cs)
  let ?sd = "pass1Cell b (tg c) (key c) sd"
  have len: "length (sandHeight (fst ?sd)) = length (sandHeight (fst sd))"
    by (simp add: pass1Cell_height)
  have "sandHeight (fst ?sd) ! i \<le> sandHeight (fst sd) ! i"
    using Cons.prems pass1Height_le[of "diggingMode (fst sd)" b "tg c" "sandHeight (fst sd) ! key c"]
    by (cases "i = key c") (simp_all add: pass1Cell_height)
  moreover have "sandHeight (fst (fold (\<lambda>c. pass1Cell b (tg c) (key c)) cs ?sd)) ! i
      \<le> sandHeight (fst ?sd) ! i"
    using Cons.prems len by (intro Cons.IH) simp
  ultimately show ?case by simp
qed


lemma carvePass1_le:
  assumes "i < length (sandHeight s)"
  shows "sandHeight (fst (carvePass1 tab r ix iy s)) ! i \<le> sandHeight s ! i"
  using pass1_fold_le[where sd = "(s, [])", of i] assms
  by (simp add: carvePass1_keyed)

section \<open>Carving in the digging mode\<close>

lemma carveCells_neg: "r < 0 \<Longrightarrow> carveCells w h r ix iy = []"
  by (simp add: carveCells_def)

lemma wfGrid_frame: "sameFrame s t \<Longrightarrow> wfGrid s \<Longrightarrow> wfGrid t"
  by (simp add: sameFrame_def wfGrid_def)

lemma inGrid_frame: "sameFrame s t \<Longrightarrow> inGrid t px py = inGrid s px py"
  by (simp add: sameFrame_def inGrid_def)

text \<open>
  With a consistent cache and a table that the engine allocates, \<open>rebuildTineProfile\<close>
  and \<open>carveTine\<close> return, and the passes run on the table of the key.
\<close>

lemma rebuildTineProfile_done:
  assumes "cacheOk s" "nat ((2 * r + 1) * (2 * r + 1)) \<le> arrayLimit s"
  shows "\<exists>s0. rebuildTineProfile r s = Done s0 \<and> cacheOk s0
     \<and> (0 \<le> r \<longrightarrow>
          tineProfile s0 = Some (tineProfileTable r (depth (cached s)) (rim (cached s)))
          \<and> tineProfileStride s0 = 2 * r + 1)"
proof (cases r s rule: rebuildTineProfile_cases)
  case hit
  have "0 \<le> r \<longrightarrow>
          tineProfile s = Some (tineProfileTable r (depth (cached s)) (rim (cached s)))
          \<and> tineProfileStride s = 2 * r + 1"
    using assms(1) hit(2,3,4) by (simp add: cacheOk_def)
  then show ?thesis using hit(1) assms(1) by blast
next
  case full
  with assms(2) show ?thesis by simp
next
  case built
  show ?thesis
    unfolding built(2) by (simp add: cacheOk_def)
qed

lemma carveTine_done:
  assumes "cacheOk s" "nat ((2 * \<lfloor>radius\<rfloor> + 1) * (2 * \<lfloor>radius\<rfloor> + 1)) \<le> arrayLimit s"
  shows "\<exists>s0 tab. carveTine x y radius dirX dirY s = Done (carvePasses tab x y radius dirX dirY s0)
     \<and> rebuildTineProfile \<lfloor>radius\<rfloor> s = Done s0 \<and> cacheOk s0
     \<and> (0 \<le> \<lfloor>radius\<rfloor> \<longrightarrow>
          tab = tineProfileTable \<lfloor>radius\<rfloor> (depth (cached s)) (rim (cached s))
          \<and> tineProfileStride s0 = 2 * \<lfloor>radius\<rfloor> + 1)"
proof -
  obtain s1 where s1: "rebuildTineProfile \<lfloor>radius\<rfloor> s = Done s1" "cacheOk s1"
    "0 \<le> \<lfloor>radius\<rfloor> \<longrightarrow>
       tineProfile s1 = Some (tineProfileTable \<lfloor>radius\<rfloor> (depth (cached s)) (rim (cached s)))
       \<and> tineProfileStride s1 = 2 * \<lfloor>radius\<rfloor> + 1"
    using rebuildTineProfile_done[OF assms] by blast
  show ?thesis
  proof (cases x y radius dirX dirY s rule: carveTine_cases)
    case (full s0)
    with s1(1) show ?thesis by simp
  next
    case (null s0)
    then have "s0 = s1" using s1(1) by simp
    moreover have "0 \<le> \<lfloor>radius\<rfloor>"
      using null(3) carveCells_neg[of "\<lfloor>radius\<rfloor>"] by (cases "0 \<le> \<lfloor>radius\<rfloor>") auto
    ultimately show ?thesis using null(2) s1(3) by simp
  next
    case (carved s0 tab)
    then have e: "s0 = s1" using s1(1) by simp
    have "0 \<le> \<lfloor>radius\<rfloor> \<longrightarrow>
          tab = tineProfileTable \<lfloor>radius\<rfloor> (depth (cached s)) (rim (cached s))
          \<and> tineProfileStride s0 = 2 * \<lfloor>radius\<rfloor> + 1"
      using carved(2) s1(3) e by auto
    then show ?thesis
      using carved(1,3) s1(2) e by blast
  qed
qed

lemma carvePasses_digging:
  "diggingMode s \<Longrightarrow> carvePasses tab x y radius dirX dirY s =
     markDirty (real_of_int (js_round x)) (real_of_int (js_round y))
       (real_of_int (\<lfloor>radius\<rfloor> + 2)) (fst (carvePass1 tab \<lfloor>radius\<rfloor> (js_round x) (js_round y) s))"
  using sameFrame_carvePass1[of s tab "\<lfloor>radius\<rfloor>" "js_round x" "js_round y"]
    sameFrame_markDirty
  by (simp add: carvePasses_def Let_def sameFrame_def markDirty_def)

lemma grid_markDirty [simp]:
  "sandHeight (markDirty x y rad s) = sandHeight s" "sandR (markDirty x y rad s) = sandR s"
  "sandG (markDirty x y rad s) = sandG s" "sandB (markDirty x y rad s) = sandB s"
  by (simp_all add: markDirty_def Let_def)

lemma digNewH_formula:
  assumes "0.1 \<le> h" "h \<le> 2" "0 \<le> b" "0 \<le> t" "t < 1"
  shows "digNewH b h (Num t) =
     Num (max 0.1 (h - (1 - t) * b / (1 + 3 * max 0 (min 1 ((2 - h) / 1.9)))))"
proof -
  define hard where "hard = 1.0 + (2.0 - h) / 1.9 * 3.0"
  define ra where "ra = (1.0 - t) * b / hard"
  have df: "0 \<le> (2 - h) / 1.9" "(2 - h) / 1.9 \<le> 1"
    using assms by simp_all
  then have cl: "max 0 (min 1 ((2 - h) / 1.9)) = (2 - h) / 1.9"
    by simp
  have "0 \<le> (2 - h) / 1.9 * 3"
    using df(1) by (rule mult_nonneg_nonneg) simp
  moreover have "hard = 1 + (2 - h) / 1.9 * 3"
    unfolding hard_def by simp
  ultimately have hd: "hard > 0"
    by linarith
  have rhs: "(1 - t) * b / (1 + 3 * ((2 - h) / 1.9)) = ra"
    unfolding ra_def hard_def by (simp add: mult.commute)
  have "digNewH b h (Num t) = (if js_lt (js_rsub h (js_div ((1.0 - t) * b) hard)) 0.1 then Num 0.1
      else js_rsub h (js_div ((1.0 - t) * b) hard))"
    unfolding digNewH_def Let_def hard_def by simp
  also have "js_div ((1.0 - t) * b) hard = Num ra"
    using hd by (simp add: js_div_def ra_def)
  finally have dn: "digNewH b h (Num t) = Num (if h - ra < 0.1 then 0.1 else h - ra)"
    by simp
  have "(if h - ra < 0.1 then 0.1 else h - ra) = max 0.1 (h - ra)"
    by (simp add: max_def)
  then show ?thesis
    unfolding cl rhs dn by simp
qed

text \<open>
  One cell of the grid under a carve of the digging mode, by the entry of the profile at
  its offset.
\<close>

lemma digging_cell:
  fixes ix iy :: int
  assumes dig: "diggingMode s" and wf: "wfGrid s" and g: "inGrid s px py"
    and rng: "0.1 \<le> sandHeight s ! nat (py * W s + px)" "sandHeight s ! nat (py * W s + px) \<le> 2"
    and b: "0 \<le> blend (cached s)"
    and tab: "0 \<le> r \<Longrightarrow> tab = tineProfileTable r d m" "0 \<le> r \<Longrightarrow> tineProfileStride s = 2 * r + 1"
  defines "i \<equiv> nat (py * W s + px)"
  defines "f \<equiv> fst (carvePass1 tab r ix iy s)"
  defines "box \<equiv> (- r \<le> px - ix \<and> px - ix \<le> r \<and> - r \<le> py - iy \<and> py - iy \<le> r)"
  shows "case profileEntry r d m (px - ix) (py - iy) of
           Num tg \<Rightarrow>
             if box \<and> 0 \<le> tg \<and> tg < 1
             then sandHeight f ! i =
                    max 0.1 (sandHeight s ! i - (1 - tg) * blend (cached s)
                               / (1 + 3 * max 0 (min 1 ((2 - sandHeight s ! i) / 1.9))))
                \<and> (sandR f ! i, sandG f ! i, sandB f ! i) =
                    getDiggingColor (Num (max 0.1 (sandHeight s ! i - (1 - tg) * blend (cached s)
                               / (1 + 3 * max 0 (min 1 ((2 - sandHeight s ! i) / 1.9))))))
             else sandHeight f ! i = sandHeight s ! i
                \<and> sandR f ! i = sandR s ! i \<and> sandG f ! i = sandG s ! i \<and> sandB f ! i = sandB s ! i
         | NaN \<Rightarrow>
             sandHeight f ! i = sandHeight s ! i
             \<and> (if box then (sandR f ! i, sandG f ! i, sandB f ! i) = (NaN, NaN, NaN)
                 else sandR f ! i = sandR s ! i \<and> sandG f ! i = sandG s ! i
                    \<and> sandB f ! i = sandB s ! i)
         | _ \<Rightarrow> sandHeight f ! i = sandHeight s ! i
                \<and> sandR f ! i = sandR s ! i \<and> sandG f ! i = sandG s ! i \<and> sandB f ! i = sandB s ! i"
proof (cases box)
  case False
  then have out: "\<not> (- r \<le> px - ix \<and> px - ix \<le> r \<and> - r \<le> py - iy \<and> py - iy \<le> r)"
    by (simp add: box_def)
  have "sandHeight f ! i = sandHeight s ! i \<and> sandR f ! i = sandR s ! i
      \<and> sandG f ! i = sandG s ! i \<and> sandB f ! i = sandB s ! i"
    unfolding f_def i_def using carvePass1_outside[OF g out, of tab] by simp
  then show ?thesis
    using False by (simp split: jsnum.splits)
next
  case True
  then have bx: "- r \<le> px - ix \<and> px - ix \<le> r \<and> - r \<le> py - iy \<and> py - iy \<le> r"
    by (simp add: box_def)
  then have r0: "0 \<le> r" by linarith
  let ?t = "profileEntry r d m (px - ix) (py - iy)"
  have look: "profileAt tab ((py - iy + r) * tineProfileStride s + r + (px - ix)) = ?t"
    using tineProfileTable_lookup[of r "px - ix" "py - iy" d m] bx tab[OF r0] by simp
  have h: "sandHeight f ! i = pass1Height True (blend (cached s)) ?t (sandHeight s ! i)"
    and c: "(sandR f ! i, sandG f ! i, sandB f ! i) =
       pass1Colour True (blend (cached s)) ?t (sandHeight s ! i)
         (sandR s ! i, sandG s ! i, sandB s ! i)"
    unfolding f_def i_def using carvePass1_inside[OF wf g bx, of tab] dig
    by (simp_all only: look)
  show ?thesis
  proof (cases ?t)
    case (Num tg)
    show ?thesis
    proof (cases "0 \<le> tg \<and> tg < 1")
      case True
      have "digNewH (blend (cached s)) (sandHeight s ! i) (Num tg) =
          Num (max 0.1 (sandHeight s ! i - (1 - tg) * blend (cached s)
                               / (1 + 3 * max 0 (min 1 ((2 - sandHeight s ! i) / 1.9)))))"
        using digNewH_formula[OF rng[folded i_def] b, of tg] True by simp
      moreover have "pass1Height True (blend (cached s)) (Num tg) (sandHeight s ! i) =
          max 0.1 (sandHeight s ! i - (1 - tg) * blend (cached s)
                               / (1 + 3 * max 0 (min 1 ((2 - sandHeight s ! i) / 1.9))))"
        using dig_height_formula[OF rng[folded i_def] b, of tg] True by simp
      ultimately show ?thesis
        using True \<open>box\<close> h c unfolding Num by (simp add: pass1Colour_def)
    next
      case False
      then have "pass1Height True (blend (cached s)) (Num tg) (sandHeight s ! i) = sandHeight s ! i"
        "pass1Colour True (blend (cached s)) (Num tg) (sandHeight s ! i)
           (sandR s ! i, sandG s ! i, sandB s ! i) = (sandR s ! i, sandG s ! i, sandB s ! i)"
        by (auto simp: pass1Height_def pass1Colour_def)
      then show ?thesis
        using False h c unfolding Num by auto
    qed
  next
    case PInf
    then show ?thesis using h c by (simp add: pass1Height_def pass1Colour_def)
  next
    case NInf
    then show ?thesis using h c by (simp add: pass1Height_def pass1Colour_def)
  next
    case NaN
    then show ?thesis
      using h c \<open>box\<close>
      by (simp add: pass1Height_def pass1Colour_def digNewH_def getDiggingColor_def Let_def)
  qed
qed

text \<open>
  C5. In the digging mode, with the heights in \<open>[0.1, 2]\<close> as the mode keeps them, a
  non-negative blend, a consistent profile cache and a table that the engine allocates,
  one \<open>carveTine\<close> call returns and has acted on every cell of the grid by the entry
  \<open>target\<close> of the profile at the offset of the cell from the centre of the tine. A cell
  in the square of the tine with \<open>0 \<le> target < 1\<close> gets the height
  \<open>max 0.1 (current - (1 - target) * blend / hardness)\<close> with
  \<open>hardness = 1 + 3 * clamp ((2 - current) / 1.9) 0 1\<close>, and the colour of that depth. A
  cell with a sentinel, with a rim entry \<open>target \<ge> 1\<close>, or outside the square keeps its
  height and its three colour channels: it is skipped entirely. (The one entry of the
  profile of radius 0 is \<open>NaN\<close>: that cell keeps its height, and its colour becomes
  \<open>NaN\<close>.) Pass 2 does not run: no cell of the grid gains height.
\<close>

theorem digging_carve_subtractive:
  assumes "diggingMode s" "wfGrid s" "heightsIn 0.1 2 (sandHeight s)" "0 \<le> blend (cached s)"
    "cacheOk s" "nat ((2 * \<lfloor>radius\<rfloor> + 1) * (2 * \<lfloor>radius\<rfloor> + 1)) \<le> arrayLimit s"
  shows "\<exists>t. carveTine x y radius dirX dirY s = Done t
     \<and> (\<forall>px py. inGrid s px py \<longrightarrow>
          (let i = nat (py * W s + px); cur = sandHeight s ! i;
               dx = px - js_round x; dy = py - js_round y; r = \<lfloor>radius\<rfloor>;
               inSquare = (- r \<le> dx \<and> dx \<le> r \<and> - r \<le> dy \<and> dy \<le> r)
           in case profileEntry r (depth (cached s)) (rim (cached s)) dx dy of
                Num target \<Rightarrow>
                  if inSquare \<and> 0 \<le> target \<and> target < 1
                  then sandHeight t ! i =
                         max 0.1 (cur - (1 - target) * blend (cached s)
                                     / (1 + 3 * max 0 (min 1 ((2 - cur) / 1.9))))
                     \<and> (sandR t ! i, sandG t ! i, sandB t ! i) =
                         getDiggingColor
                           (Num (max 0.1 (cur - (1 - target) * blend (cached s)
                                            / (1 + 3 * max 0 (min 1 ((2 - cur) / 1.9))))))
                  else sandHeight t ! i = cur
                     \<and> sandR t ! i = sandR s ! i \<and> sandG t ! i = sandG s ! i
                     \<and> sandB t ! i = sandB s ! i
              | NaN \<Rightarrow>
                  sandHeight t ! i = cur
                  \<and> (if inSquare then (sandR t ! i, sandG t ! i, sandB t ! i) = (NaN, NaN, NaN)
                      else sandR t ! i = sandR s ! i \<and> sandG t ! i = sandG s ! i
                         \<and> sandB t ! i = sandB s ! i)
              | _ \<Rightarrow> sandHeight t ! i = cur
                     \<and> sandR t ! i = sandR s ! i \<and> sandG t ! i = sandG s ! i
                     \<and> sandB t ! i = sandB s ! i))
     \<and> length (sandHeight t) = length (sandHeight s)
     \<and> (\<forall>i < length (sandHeight s). sandHeight t ! i \<le> sandHeight s ! i)"
proof -
  let ?r = "\<lfloor>radius\<rfloor>"
  obtain s0 tab where d: "carveTine x y radius dirX dirY s = Done (carvePasses tab x y radius dirX dirY s0)"
    and rb: "rebuildTineProfile ?r s = Done s0"
    and tab: "0 \<le> ?r \<Longrightarrow> tab = tineProfileTable ?r (depth (cached s)) (rim (cached s))"
      "0 \<le> ?r \<Longrightarrow> tineProfileStride s0 = 2 * ?r + 1"
    using carveTine_done[OF assms(5,6), of x y dirX dirY] by blast
  have fr: "sameFrame s s0" and gr: "sameGrid s s0"
    using rebuildTineProfile_frame(1,2)[of s ?r] rb by simp_all
  then have eqs: "sandHeight s0 = sandHeight s" "sandR s0 = sandR s" "sandG s0 = sandG s"
    "sandB s0 = sandB s" "W s0 = W s" "H s0 = H s" "cached s0 = cached s" "diggingMode s0"
    using assms(1) by (simp_all add: sameFrame_def sameGrid_def)
  have wf0: "wfGrid s0" using wfGrid_frame[OF fr assms(2)] .
  let ?f = "fst (carvePass1 tab ?r (js_round x) (js_round y) s0)"
  let ?t = "carvePasses tab x y radius dirX dirY s0"
  have t: "sandHeight ?t = sandHeight ?f" "sandR ?t = sandR ?f" "sandG ?t = sandG ?f"
    "sandB ?t = sandB ?f"
    by (simp_all add: carvePasses_digging[OF eqs(8)])
  have cells: "\<forall>px py. inGrid s px py \<longrightarrow>
          (let i = nat (py * W s + px); cur = sandHeight s ! i;
               dx = px - js_round x; dy = py - js_round y; r = \<lfloor>radius\<rfloor>;
               inSquare = (- r \<le> dx \<and> dx \<le> r \<and> - r \<le> dy \<and> dy \<le> r)
           in case profileEntry r (depth (cached s)) (rim (cached s)) dx dy of
                Num target \<Rightarrow>
                  if inSquare \<and> 0 \<le> target \<and> target < 1
                  then sandHeight ?t ! i =
                         max 0.1 (cur - (1 - target) * blend (cached s)
                                     / (1 + 3 * max 0 (min 1 ((2 - cur) / 1.9))))
                     \<and> (sandR ?t ! i, sandG ?t ! i, sandB ?t ! i) =
                         getDiggingColor
                           (Num (max 0.1 (cur - (1 - target) * blend (cached s)
                                            / (1 + 3 * max 0 (min 1 ((2 - cur) / 1.9))))))
                  else sandHeight ?t ! i = cur
                     \<and> sandR ?t ! i = sandR s ! i \<and> sandG ?t ! i = sandG s ! i
                     \<and> sandB ?t ! i = sandB s ! i
              | NaN \<Rightarrow>
                  sandHeight ?t ! i = cur
                  \<and> (if inSquare then (sandR ?t ! i, sandG ?t ! i, sandB ?t ! i) = (NaN, NaN, NaN)
                      else sandR ?t ! i = sandR s ! i \<and> sandG ?t ! i = sandG s ! i
                         \<and> sandB ?t ! i = sandB s ! i)
              | _ \<Rightarrow> sandHeight ?t ! i = cur
                     \<and> sandR ?t ! i = sandR s ! i \<and> sandG ?t ! i = sandG s ! i
                     \<and> sandB ?t ! i = sandB s ! i)"
  proof (intro allI impI)
    fix px py
    assume g: "inGrid s px py"
    then have g0: "inGrid s0 px py" by (simp add: inGrid_frame[OF fr])
    have gb: "0 \<le> px" "px < W s" "0 \<le> py" "py < H s"
      using g by (auto simp: inGrid_def)
    have "nat (py * W s + px) < length (sandHeight s)"
      using cell_index_bound[OF gb] assms(2) by (simp add: wfGrid_def)
    then have rng: "0.1 \<le> sandHeight s0 ! nat (py * W s0 + px)"
      "sandHeight s0 ! nat (py * W s0 + px) \<le> 2"
      using assms(3) by (auto simp: heightsIn_def list_all_length eqs)
    have b0: "0 \<le> blend (cached s0)" using assms(4) by (simp add: eqs)
    from digging_cell[OF eqs(8) wf0 g0 rng b0 tab, of "js_round x" "js_round y"]
    show "let i = nat (py * W s + px); cur = sandHeight s ! i;
               dx = px - js_round x; dy = py - js_round y; r = \<lfloor>radius\<rfloor>;
               inSquare = (- r \<le> dx \<and> dx \<le> r \<and> - r \<le> dy \<and> dy \<le> r)
           in case profileEntry r (depth (cached s)) (rim (cached s)) dx dy of
                Num target \<Rightarrow>
                  if inSquare \<and> 0 \<le> target \<and> target < 1
                  then sandHeight ?t ! i =
                         max 0.1 (cur - (1 - target) * blend (cached s)
                                     / (1 + 3 * max 0 (min 1 ((2 - cur) / 1.9))))
                     \<and> (sandR ?t ! i, sandG ?t ! i, sandB ?t ! i) =
                         getDiggingColor
                           (Num (max 0.1 (cur - (1 - target) * blend (cached s)
                                            / (1 + 3 * max 0 (min 1 ((2 - cur) / 1.9))))))
                  else sandHeight ?t ! i = cur
                     \<and> sandR ?t ! i = sandR s ! i \<and> sandG ?t ! i = sandG s ! i
                     \<and> sandB ?t ! i = sandB s ! i
              | NaN \<Rightarrow>
                  sandHeight ?t ! i = cur
                  \<and> (if inSquare then (sandR ?t ! i, sandG ?t ! i, sandB ?t ! i) = (NaN, NaN, NaN)
                      else sandR ?t ! i = sandR s ! i \<and> sandG ?t ! i = sandG s ! i
                         \<and> sandB ?t ! i = sandB s ! i)
              | _ \<Rightarrow> sandHeight ?t ! i = cur
                     \<and> sandR ?t ! i = sandR s ! i \<and> sandG ?t ! i = sandG s ! i
                     \<and> sandB ?t ! i = sandB s ! i"
      unfolding Let_def t eqs by simp
  qed
  have len: "length (sandHeight ?t) = length (sandHeight s)"
    using sameFrame_carvePasses[of s0 tab x y radius dirX dirY] fr by (simp add: sameFrame_def)
  have le: "\<forall>i < length (sandHeight s). sandHeight ?t ! i \<le> sandHeight s ! i"
    unfolding t using carvePass1_le[of _ s0 tab ?r "js_round x" "js_round y"] by (simp add: eqs)
  show ?thesis
    using d cells len le by blast
qed

lemma heightsIn_replicate: "lo \<le> v \<Longrightarrow> v \<le> hi \<Longrightarrow> heightsIn lo hi (replicate n v)"
  by (simp add: heightsIn_def list_all_length)

lemma wideDig_sel:
  "W wideDig = 160" "H wideDig = 120" "totalPixels wideDig = 19200" "diggingMode wideDig"
  "sandHeight wideDig = replicate 19200 2" "sandR wideDig = replicate 19200 (Num 210)"
  "sandG wideDig = replicate 19200 (Num 190)" "sandB wideDig = replicate 19200 (Num 160)"
  "length (noiseMap wideDig) = 19200"
  "cached wideDig = demoSettings" "gauss wideDig = the (rebuildGaussKernel 1)"
  "arrayLimit wideDig = demoLimit" "tineProfileR wideDig = - 1" "tineProfile wideDig = None"
  "savedGardenState wideDig = Some (getCurrentState wideGarden)"
  unfolding wideDig_def enterDiggingMode_fits[OF wideGarden_fits]
  by (simp_all add: wideGarden_sel fold_update_const)

lemma wideDig_wf: "wfGrid wideDig"
  by (simp add: wfGrid_def wideDig_sel)

lemma profile_3_centre: "profileEntry 3 0.3 0.1 0 0 = Num 0.7"
  by (simp add: profileEntry_def js_div_def Let_def)

lemma profile_3_rim: "profileEntry 3 0.3 0.1 3 0 = Num 1"
proof -
  have "sqrt (real_of_int (3 * 3 + 0 * 0)) = 3"
    by (rule real_sqrt_unique) simp_all
  then show ?thesis
    by (simp add: profileEntry_def js_div_def Let_def)
qed

text \<open>
  On the wide garden in the digging mode, a tine of radius 3 at (80, 60): the centre cell
  drops from 2 to 1.85 and keeps the colour of the surface layer, and the cell (83, 60),
  whose profile entry is the rim value 1, keeps its height and its colour.
\<close>

theorem digging_carve_subtractive_witness:
  "diggingMode wideDig \<and> wfGrid wideDig \<and> heightsIn 0.1 2 (sandHeight wideDig)
   \<and> 0 \<le> blend (cached wideDig) \<and> cacheOk wideDig
   \<and> nat ((2 * \<lfloor>3::real\<rfloor> + 1) * (2 * \<lfloor>3::real\<rfloor> + 1)) \<le> arrayLimit wideDig
   \<and> inGrid wideDig 80 60 \<and> inGrid wideDig 83 60
   \<and> (\<exists>t. carveTine 80 60 3 1 0 wideDig = Done t
        \<and> sandHeight wideDig ! 9680 = 2 \<and> sandHeight t ! 9680 = 1.85
        \<and> (sandR t ! 9680, sandG t ! 9680, sandB t ! 9680) = (Num 210, Num 190, Num 160)
        \<and> sandHeight t ! 9683 = 2
        \<and> (sandR t ! 9683, sandG t ! 9683, sandB t ! 9683) = (Num 210, Num 190, Num 160))"
proof -
  have h: "diggingMode wideDig" "wfGrid wideDig" "heightsIn 0.1 2 (sandHeight wideDig)"
    "0 \<le> blend (cached wideDig)" "cacheOk wideDig"
    "nat ((2 * \<lfloor>3::real\<rfloor> + 1) * (2 * \<lfloor>3::real\<rfloor> + 1)) \<le> arrayLimit wideDig"
    by (simp_all add: wideDig_sel wideDig_wf heightsIn_replicate demoSettings_def cacheOk_def
        demoLimit_def)
  have g: "inGrid wideDig 80 60" "inGrid wideDig 83 60"
    by (simp_all add: inGrid_def wideDig_sel)
  from digging_carve_subtractive[OF h, of 80 60 1 0]
  obtain t where t: "carveTine 80 60 3 1 0 wideDig = Done t"
    and cells: "\<And>px py. inGrid wideDig px py \<Longrightarrow>
          (let i = nat (py * W wideDig + px); cur = sandHeight wideDig ! i;
               dx = px - js_round 80; dy = py - js_round 60; r = \<lfloor>3::real\<rfloor>;
               inSquare = (- r \<le> dx \<and> dx \<le> r \<and> - r \<le> dy \<and> dy \<le> r)
           in case profileEntry r (depth (cached wideDig)) (rim (cached wideDig)) dx dy of
                Num target \<Rightarrow>
                  if inSquare \<and> 0 \<le> target \<and> target < 1
                  then sandHeight t ! i =
                         max 0.1 (cur - (1 - target) * blend (cached wideDig)
                                     / (1 + 3 * max 0 (min 1 ((2 - cur) / 1.9))))
                     \<and> (sandR t ! i, sandG t ! i, sandB t ! i) =
                         getDiggingColor
                           (Num (max 0.1 (cur - (1 - target) * blend (cached wideDig)
                                            / (1 + 3 * max 0 (min 1 ((2 - cur) / 1.9))))))
                  else sandHeight t ! i = cur
                     \<and> sandR t ! i = sandR wideDig ! i \<and> sandG t ! i = sandG wideDig ! i
                     \<and> sandB t ! i = sandB wideDig ! i
              | NaN \<Rightarrow>
                  sandHeight t ! i = cur
                  \<and> (if inSquare then (sandR t ! i, sandG t ! i, sandB t ! i) = (NaN, NaN, NaN)
                      else sandR t ! i = sandR wideDig ! i \<and> sandG t ! i = sandG wideDig ! i
                         \<and> sandB t ! i = sandB wideDig ! i)
              | _ \<Rightarrow> sandHeight t ! i = cur
                     \<and> sandR t ! i = sandR wideDig ! i \<and> sandG t ! i = sandG wideDig ! i
                     \<and> sandB t ! i = sandB wideDig ! i)"
    by blast
  have c: "sandHeight t ! 9680 = 1.85
      \<and> (sandR t ! 9680, sandG t ! 9680, sandB t ! 9680) = (Num 210, Num 190, Num 160)"
    using cells[OF g(1)] profile_3_centre
    by (simp add: wideDig_sel js_round_def demoSettings_def Let_def getDiggingColor_def)
  have rm: "sandHeight t ! 9683 = 2
      \<and> (sandR t ! 9683, sandG t ! 9683, sandB t ! 9683) = (Num 210, Num 190, Num 160)"
    using cells[OF g(2)] profile_3_rim
    by (simp add: wideDig_sel js_round_def demoSettings_def Let_def)
  show ?thesis
    using h g t c rm by (simp add: wideDig_sel)
qed

section \<open>The range of the heights after the page has loaded\<close>


lemma fold_update_map:
  "k \<le> length a \<Longrightarrow>
     fold (\<lambda>i a. a[i := g i (a ! i)]) [0 ..< k] a = map (\<lambda>i. g i (a ! i)) [0 ..< k] @ drop k a"
proof (induction k)
  case 0
  show ?case by simp
next
  case (Suc k)
  then have "fold (\<lambda>i a. a[i := g i (a ! i)]) [0 ..< Suc k] a =
      (map (\<lambda>i. g i (a ! i)) [0 ..< k] @ drop k a)
        [k := g k ((map (\<lambda>i. g i (a ! i)) [0 ..< k] @ drop k a) ! k)]"
    by simp
  also have "(map (\<lambda>i. g i (a ! i)) [0 ..< k] @ drop k a) ! k = a ! k"
    using Suc.prems by (simp add: nth_append)
  also have "(map (\<lambda>i. g i (a ! i)) [0 ..< k] @ drop k a)[k := g k (a ! k)] =
      map (\<lambda>i. g i (a ! i)) [0 ..< k] @ (drop k a)[0 := g k (a ! k)]"
    by (simp add: list_update_append)
  also have "(drop k a)[0 := g k (a ! k)] = g k (a ! k) # drop (Suc k) a"
    using Suc.prems by (cases "drop k a") (simp_all add: drop_Suc drop_tl)
  finally show ?case by simp
qed

lemma clamp_fold:
  "fold (\<lambda>i s. s\<lparr>sandHeight := (sandHeight s)[i := g i (sandHeight s ! i)]\<rparr>) js s =
   s\<lparr>sandHeight := fold (\<lambda>i a. a[i := g i (a ! i)]) js (sandHeight s)\<rparr>"
  by (induction js arbitrary: s) simp_all

lemma clearSand_normal:
  assumes "\<not> diggingMode s" "wfGrid s"
  shows "clearSand rnd s =
     (saveState s)\<lparr>sandHeight := map (\<lambda>i. max 0.1 (min 1.5 (1 + (rnd i - 0.5) * 0.3)))
                                   [0 ..< totalPixels s],
                   sandR := replicate (totalPixels s) (Num 210),
                   sandG := replicate (totalPixels s) (Num 190),
                   sandB := replicate (totalPixels s) (Num 160),
                   noiseMap := noiseLoop rnd (totalPixels s) [0 ..< totalPixels s] (noiseMap s),
                   dirtyMinX := 0, dirtyMinY := 0, dirtyMaxX := W s - 1, dirtyMaxY := H s - 1,
                   dirtyEmpty := False\<rparr>"
proof -
  have sv: "totalPixels (saveState s) = totalPixels s" "sandHeight (saveState s) = sandHeight s"
    "sandR (saveState s) = sandR s" "sandG (saveState s) = sandG s" "sandB (saveState s) = sandB s"
    "noiseMap (saveState s) = noiseMap s" "W (saveState s) = W s" "H (saveState s) = H s"
    by (simp_all add: saveState_def pushUndo_def Let_def)
  have len: "totalPixels s = length (sandHeight s)" "totalPixels s = length (sandR s)"
    "totalPixels s = length (sandG s)" "totalPixels s = length (sandB s)"
    using assms(2) by (simp_all add: wfGrid_def)
  have i: "initSand (saveState s) =
     (saveState s)\<lparr>sandHeight := replicate (totalPixels s) 1,
                   sandR := replicate (totalPixels s) (Num 210),
                   sandG := replicate (totalPixels s) (Num 190),
                   sandB := replicate (totalPixels s) (Num 160)\<rparr>"
    unfolding initSand_sel sv
    using len by (simp add: fold_update_const)
  define g where "g = (\<lambda>i h. max 0.1 (min 1.5 (h + (rnd i - 0.5) * 0.3)))"
  have cs: "clearSand rnd s =
     (let s1 = initSand (saveState s);
          s2 = fold (\<lambda>i s. s\<lparr>sandHeight := (sandHeight s)[i := g i (sandHeight s ! i)]\<rparr>)
                 [0 ..< totalPixels s1] s1
      in markFullDirty (generateNoiseMap rnd (totalPixels s2) s2))"
    using assms(1) by (simp only: clearSand_def g_def if_False)
  have m: "map (\<lambda>i. g i (replicate (totalPixels s) (1::real) ! i)) [0 ..< totalPixels s]
      = map (\<lambda>i. max 0.1 (min 1.5 (1 + (rnd i - 0.5) * 0.3))) [0 ..< totalPixels s]"
    by (rule map_cong) (simp_all add: g_def)
  show ?thesis
    unfolding cs Let_def i
    by (simp add: clamp_fold sv fold_update_map m generateNoiseMap_def markFullDirty_def)
qed

lemma heightsIn_clamp_map:
  "lo \<le> hi \<Longrightarrow> heightsIn lo hi (map (\<lambda>i. max lo (min hi (f i))) xs)"
  by (auto simp: heightsIn_def list_all_iff)


text \<open>
  \<open>clearSand\<close> saves the grid before it resets it, so the \<open>undo\<close> that follows a reset
  gives back the grid that the reset found.
\<close>

lemma undo_after_clearSand:
  assumes "\<not> diggingMode s" "wfGrid s"
  shows "\<exists>t. undo (clearSand rnd s) = Done t \<and> sameGrid s t \<and> \<not> diggingMode t"
proof -
  let ?c = "clearSand rnd s"
  note ce = clearSand_normal[OF assms, of rnd]
  have len: "length (sandHeight s) = totalPixels s" "length (sandR s) = totalPixels s"
    "length (sandG s) = totalPixels s" "length (sandB s) = totalPixels s"
    using assms(2) by (simp_all add: wfGrid_def)
  have c: "undoStack ?c \<noteq> []" "last (undoStack ?c) = getCurrentState s"
    "\<not> diggingMode ?c" "length (sandHeight ?c) = totalPixels s"
    "length (sandR ?c) = totalPixels s" "length (sandG ?c) = totalPixels s"
    "length (sandB ?c) = totalPixels s"
    unfolding ce
    using assms(1) by (simp_all add: saveState_def pushUndo_def Let_def getCurrentState_def)
  let ?s2 = "?c\<lparr>redoStack := redoStack ?c @ [getCurrentState ?c], undoStack := butlast (undoStack ?c)\<rparr>"
  have "restoreState (getCurrentState s) ?s2 =
      Done (?s2\<lparr>sandHeight := snapH (getCurrentState s), sandR := snapR (getCurrentState s),
                 sandG := snapG (getCurrentState s), sandB := snapB (getCurrentState s)\<rparr>)"
    by (rule restoreState_same_length) (simp_all add: c getCurrentState_def len)
  then show ?thesis
    using c(1,2,3)
    by (simp add: undo_def Let_def markFullDirty_def getCurrentState_def sameGrid_def)
qed

lemma bootGarden_eq:
  "bootGarden = \<lparr>W = 160, H = 120, totalPixels = 19200,
              sandHeight = replicate 19200 0, sandR = replicate 19200 (Num 0),
              sandG = replicate 19200 (Num 0), sandB = replicate 19200 (Num 0),
              noiseMap = replicate 19200 0,
              diggingMode = False, savedGardenState = None,
              undoStack = [], redoStack = [],
              dirtyMinX = 0, dirtyMinY = 0, dirtyMaxX = 159, dirtyMaxY = 119,
              dirtyEmpty = False, cached = demoSettings, gauss = the (rebuildGaussKernel 1),
              quotePixels = None,
              tineProfileR = - 1, tineProfileDepth = - 1, tineProfileRim = - 1,
              tineProfile = None, tineProfileStride = 0,
              arrayLimit = demoLimit\<rparr>"
  by (simp add: bootGarden_def initGarden_def Let_def demoLimit_def)

lemma bootGarden_sel:
  "\<not> diggingMode bootGarden" "wfGrid bootGarden" "sandHeight bootGarden = replicate 19200 0"
  by (simp_all add: bootGarden_eq wfGrid_def)

text \<open>
  C1 fails on the code. The initialisation sequence of the page calls \<open>clearSand\<close> right
  after \<open>initGarden\<close>, and \<open>clearSand\<close> calls \<open>saveState\<close> before it fills the grid: the
  snapshot that it pushes holds the zero-filled arrays of the allocation. After the reset
  the heights lie in \<open>[0.1, 1.5]\<close>; one \<open>undo\<close> later the mode is still the normal one and
  every cell of the grid has the height 0.
\<close>

theorem load_undo_below_range:
  "step (ClearSand demoRnd) bootGarden = Done (clearSand demoRnd bootGarden)
   \<and> heightsIn 0.1 1.5 (sandHeight (clearSand demoRnd bootGarden))
   \<and> (\<exists>t. step Undo (clearSand demoRnd bootGarden) = Done t
         \<and> run [ClearSand demoRnd, Undo] bootGarden = t
         \<and> \<not> diggingMode t
         \<and> sandHeight t = replicate 19200 0
         \<and> sandHeight t ! 9680 = 0)"
proof -
  note ce = clearSand_normal[OF bootGarden_sel(1,2), of demoRnd]
  have "heightsIn 0.1 1.5 (sandHeight (clearSand demoRnd bootGarden))"
    unfolding ce by (simp add: heightsIn_clamp_map)
  moreover obtain t where t: "undo (clearSand demoRnd bootGarden) = Done t"
    "sameGrid bootGarden t" "\<not> diggingMode t"
    using undo_after_clearSand[OF bootGarden_sel(1,2), of demoRnd] by blast
  moreover have "sandHeight t = replicate 19200 0"
    using t(2) by (simp add: sameGrid_def bootGarden_sel)
  ultimately show ?thesis
    by simp
qed

section \<open>Pass 2\<close>



lemma depositCell_colours:
  "\<exists>v. sandR (depositCell a ic src cx cy k s) = (sandR s)[cellIndex s (cx + fst k) (cy + fst (snd k)) := v]"
  "\<exists>v. sandG (depositCell a ic src cx cy k s) = (sandG s)[cellIndex s (cx + fst k) (cy + fst (snd k)) := v]"
  "\<exists>v. sandB (depositCell a ic src cx cy k s) = (sandB s)[cellIndex s (cx + fst k) (cy + fst (snd k)) := v]"
  unfolding depositCell_def Let_def cellIndex_def by (auto simp: ex_update_id)

lemma depositCell_out:
  "\<not> inGrid s (cx + fst k) (cy + fst (snd k)) \<Longrightarrow> depositCell a ic src cx cy k s = s"
  unfolding depositCell_def Let_def inGrid_def by auto






lemma clippedTotal_frame: "sameFrame s t \<Longrightarrow> clippedTotal t cx cy = clippedTotal s cx cy"
  by (simp add: clippedTotal_def sameFrame_def inGrid_def)



lemma depositCell_fold_frame:
  "sameFrame t (fold (depositCell a ic src cx cy) ks t)"
  by (rule sameFrame_fold) (rule sameFrame_depositCell)








section \<open>The mass of a carve\<close>


















lemma posDelta_self [simp]: "posDelta a a = 0"
  by (simp add: posDelta_def)





lemma js_round_int [simp]: "js_round (real_of_int n) = n"
  unfolding js_round_def by linarith

lemma js_round_numeral [simp]: "js_round (numeral n) = numeral n" "js_round 0 = 0" "js_round 1 = 1"
  using js_round_int[of "numeral n"] js_round_int[of 0] js_round_int[of 1] by simp_all







end
